theory Spec2Isabelle
  imports Main
begin

section \<open>Path model\<close>

text \<open>
  The file that declares \<open>Path\<close>, its methods and \<open>ParsePath\<close> is not among the sources;
  only its test is. The component names are those of the test
  (\<open>stringPathComponent\<close>, \<open>indexPathComponent\<close>).
\<close>

datatype PathComponent = stringPathComponent string | indexPathComponent nat

type_synonym Path = "PathComponent list"

text \<open>Modelled from the spec: \<open>Path.withProperty\<close>, \<open>Path.withIndex\<close> and \<open>Path.parent\<close>
  (append a step; drop the last step, empty input yields empty output).\<close>

definition WithProperty :: "Path \<Rightarrow> string \<Rightarrow> Path" where
  "WithProperty p name = p @ [stringPathComponent name]"

definition WithIndex :: "Path \<Rightarrow> nat \<Rightarrow> Path" where
  "WithIndex p i = p @ [indexPathComponent i]"

definition Parent :: "Path \<Rightarrow> Path" where
  "Parent p = butlast p"

text \<open>Decimal digits of a non-negative integer, most significant first.\<close>

definition digit_char :: "nat \<Rightarrow> char" where
  "digit_char d = char_of (48 + d)"

fun show_nat :: "nat \<Rightarrow> string" where
  "show_nat n = (if n < 10 then [digit_char n] else show_nat (n div 10) @ [digit_char (n mod 10)])"

declare show_nat.simps [simp del]

text \<open>Modelled from the spec: \<open>Path.string()\<close>, the canonical rendering. A property step
  after the first component is dot-prefixed, an index step is rendered as \<open>[n]\<close>.\<close>

fun render_step :: "bool \<Rightarrow> PathComponent \<Rightarrow> string" where
  "render_step first (stringPathComponent name) = (if first then name else CHR ''.'' # name)"
| "render_step first (indexPathComponent i) = CHR ''['' # show_nat i @ [CHR '']'']"

fun String_from :: "bool \<Rightarrow> Path \<Rightarrow> string" where
  "String_from first [] = []"
| "String_from first (c # cs) = render_step first c @ String_from False cs"

definition Path_String :: "Path \<Rightarrow> string" where
  "Path_String p = String_from True p"

text \<open>Modelled from the spec: the path grammar of \<open>parsePath\<close>.
  \<^verbatim>\<open>propertySegment := [a-zA-Z0-9_-]+  (optionally preceded by '.')\<close>,
  \<^verbatim>\<open>indexSegment := '[' digits ']'\<close>. The first segment may omit the leading dot, every later
  property segment must be preceded by one dot. Segments are consumed greedily, left to
  right; at a position where neither rule matches the parse fails with a syntax error and
  returns the components parsed so far.\<close>

definition is_digit :: "char \<Rightarrow> bool" where
  "is_digit c = (let n = (of_char c :: nat) in 48 \<le> n \<and> n \<le> 57)"

definition is_name_char :: "char \<Rightarrow> bool" where
  "is_name_char c = (let n = (of_char c :: nat) in
     (97 \<le> n \<and> n \<le> 122) \<or> (65 \<le> n \<and> n \<le> 90) \<or> (48 \<le> n \<and> n \<le> 57)
     \<or> c = CHR ''_'' \<or> c = CHR ''-'')"

definition digit_val :: "char \<Rightarrow> nat" where
  "digit_val c = of_char c - 48"

definition parse_nat :: "string \<Rightarrow> nat" where
  "parse_nat ds = foldl (\<lambda>a c. 10 * a + digit_val c) 0 ds"

definition name_of :: "string \<Rightarrow> (PathComponent \<times> string) option" where
  "name_of t = (let n = takeWhile is_name_char t in
     if n = [] then None else Some (stringPathComponent n, dropWhile is_name_char t))"

definition property_segment :: "bool \<Rightarrow> string \<Rightarrow> (PathComponent \<times> string) option" where
  "property_segment first s =
     (case s of
        [] \<Rightarrow> None
      | c # t \<Rightarrow> if c = CHR ''.'' then name_of t else if first then name_of s else None)"

definition index_segment :: "string \<Rightarrow> (PathComponent \<times> string) option" where
  "index_segment s =
     (case s of
        [] \<Rightarrow> None
      | c # t \<Rightarrow>
          if c = CHR ''['' then
            (let ds = takeWhile is_digit t in
               case dropWhile is_digit t of
                 [] \<Rightarrow> None
               | e # rest \<Rightarrow>
                   if ds \<noteq> [] \<and> e = CHR '']'' then Some (indexPathComponent (parse_nat ds), rest)
                   else None)
          else None)"

definition next_segment :: "bool \<Rightarrow> string \<Rightarrow> (PathComponent \<times> string) option" where
  "next_segment first s =
     (case property_segment first s of
        Some r \<Rightarrow> Some r
      | None \<Rightarrow> index_segment s)"

datatype path_error = SyntaxError

lemma name_of_shorter: "name_of t = Some (c, r) \<Longrightarrow> length r \<le> length t"
  by (auto simp: name_of_def Let_def length_dropWhile_le split: if_splits)

lemma name_of_strictly_shorter: "name_of t = Some (c, r) \<Longrightarrow> length r < length t"
proof -
  assume h: "name_of t = Some (c, r)"
  then have ne: "takeWhile is_name_char t \<noteq> []" and r: "r = dropWhile is_name_char t"
    by (auto simp: name_of_def Let_def split: if_splits)
  have "length t = length (takeWhile is_name_char t) + length (dropWhile is_name_char t)"
    by (metis length_append takeWhile_dropWhile_id)
  with ne r show ?thesis by (cases "takeWhile is_name_char t") auto
qed

lemma property_segment_shorter: "property_segment first s = Some (c, r) \<Longrightarrow> length r < length s"
  by (auto simp: property_segment_def split: list.splits if_splits
      dest: name_of_shorter name_of_strictly_shorter)

lemma index_segment_shorter: "index_segment s = Some (c, r) \<Longrightarrow> length r < length s"
proof -
  assume h: "index_segment s = Some (c, r)"
  then obtain t e where s: "s = CHR ''['' # t" and d: "dropWhile is_digit t = e # r"
    by (auto simp: index_segment_def Let_def split: list.splits if_splits)
  have "length (dropWhile is_digit t) \<le> length t" by (rule length_dropWhile_le)
  with s d show ?thesis by simp
qed

lemma next_segment_shorter: "next_segment first s = Some (c, r) \<Longrightarrow> length r < length s"
  by (auto simp: next_segment_def split: option.splits
      dest: property_segment_shorter index_segment_shorter)

function parse_loop :: "bool \<Rightarrow> string \<Rightarrow> Path \<Rightarrow> Path \<times> path_error option" where
  "parse_loop first s acc =
     (if s = [] then (acc, None)
      else case next_segment first s of
             None \<Rightarrow> (acc, Some SyntaxError)
           | Some (c, r) \<Rightarrow> parse_loop False r (acc @ [c]))"
  by pat_completeness auto
termination
  by (relation "measure (\<lambda>(first, s, acc). length s)") (auto dest: next_segment_shorter)

declare parse_loop.simps [simp del]

definition ParsePath :: "string \<Rightarrow> Path \<times> path_error option" where
  "ParsePath pathStr = parse_loop True pathStr []"

text \<open>A path whose components render unambiguously: every property name is a non-empty
  word over \<open>[a-zA-Z0-9_-]\<close>.\<close>

definition valid_component :: "PathComponent \<Rightarrow> bool" where
  "valid_component c = (case c of
      stringPathComponent name \<Rightarrow> name \<noteq> [] \<and> list_all is_name_char name
    | indexPathComponent i \<Rightarrow> True)"

definition valid_path :: "Path \<Rightarrow> bool" where
  "valid_path p = list_all valid_component p"

text \<open>The characters that occur in the grammar at all, and the greedy boundary: a segment
  that ends in a name character is followed by the end of input or by a character that
  cannot continue the name.\<close>

definition grammar_char :: "char \<Rightarrow> bool" where
  "grammar_char c = (is_name_char c \<or> c = CHR ''.'' \<or> c = CHR ''['' \<or> c = CHR '']'')"

definition boundary :: "string \<Rightarrow> string \<Rightarrow> bool" where
  "boundary seg r = (if is_name_char (last seg) then r = [] \<or> \<not> is_name_char (hd r) else True)"

section \<open>Comment model\<close>

text \<open>
  The file that declares \<open>Comment\<close>, \<open>Comments\<close>, \<open>Tags\<close> and \<open>ParseComment\<close> is not among
  the sources. The field names \<open>Tags\<close>, \<open>Sections\<close>, \<open>Type\<close> and the constant
  \<open>CommentTypeCode\<close> are those \<^verbatim>\<open>document.go\<close> uses.
\<close>

datatype CommentType = CommentTypeText | CommentTypeCode

record CommentSection =
  Type :: CommentType
  content :: string

text \<open>Modelled from the spec: \<open>Tags\<close>, a mapping from directive name to string value, a
  boolean directive being present with the empty value.\<close>

type_synonym Tags = "string \<rightharpoonup> string"

record Comment =
  Tags :: Tags
  Sections :: "CommentSection list"

type_synonym Comments = "Comment list"

definition TagSection :: string where "TagSection = ''docs:section''"
definition TagIgnore :: string where "TagIgnore = ''docs:ignore''"
definition TagType :: string where "TagType = ''docs:type''"
definition TagDefault :: string where "TagDefault = ''docs:default''"
definition TagProperty :: string where "TagProperty = ''docs:property''"

text \<open>Modelled from the spec: \<open>GetBool\<close> is true for a directive that is set (present
  without a value, or with a value other than the string \<open>false\<close>); \<open>GetString\<close> is the
  literal value, or the empty string when the directive is unset or boolean-only.\<close>

definition GetBool :: "Tags \<Rightarrow> string \<Rightarrow> bool" where
  "GetBool t name = (case t name of None \<Rightarrow> False | Some v \<Rightarrow> v \<noteq> ''false'')"

definition GetString :: "Tags \<Rightarrow> string \<Rightarrow> string" where
  "GetString t name = (case t name of None \<Rightarrow> [] | Some v \<Rightarrow> v)"

definition zero_Comment :: Comment where
  "zero_Comment = \<lparr>Tags = Map.empty, Comment.Sections = []\<rparr>"

text \<open>Modelled from the spec: \<open>Comments.Pop\<close> removes and returns the first comment; on an
  empty sequence it returns the zero comment.\<close>

definition Pop :: "Comments \<Rightarrow> Comment \<times> Comments" where
  "Pop cs = (case cs of [] \<Rightarrow> (zero_Comment, []) | c # rest \<Rightarrow> (c, rest))"

section \<open>The decoded tree\<close>

text \<open>
  \<open>yaml.Node\<close> of the decoding library: nodes refer to their children and to an alias target
  by pointer, so the tree lives in a store of nodes. A pointer is \<open>nil\<close> (\<open>None\<close>) or an
  address of the store; the children in \<open>Content\<close> are addresses, the decoder storing no
  \<open>nil\<close> child. \<open>NoKind\<close> is the kind of the zero node.
\<close>

datatype Kind = NoKind | DocumentNode | SequenceNode | MappingNode | ScalarNode | AliasNode

type_synonym addr = nat

record yaml_Node =
  Kind :: Kind
  Tag :: string
  Value :: string
  Alias :: "addr option"
  Content :: "addr list"
  HeadComment :: string
  FootComment :: string

type_synonym store = "addr \<Rightarrow> yaml_Node"

definition zero_yaml_Node :: yaml_Node where
  "zero_yaml_Node = \<lparr>Kind = NoKind, Tag = [], Value = [], Alias = None, Content = [],
     HeadComment = [], FootComment = []\<rparr>"

section \<open>Document model\<close>

record Property =
  Name :: string
  Description :: Comment
  Type :: string
  Default :: string

record Section =
  Name :: string
  Description :: string
  Properties :: "Property list"

record Document =
  Sections :: "Section list"

record Node =
  Path :: Path
  HeadComments :: Comments
  FootComment :: Comments
  RawNode :: "addr option"

text \<open>
  What the code calls and the sources do not hold: the comment parser and the two
  \<open>String\<close> methods of the comment file, and the operations of the YAML and the standard
  library (\<open>yaml.Unmarshal\<close>, \<open>Node.ShortTag\<close>, \<open>Node.Decode\<close> followed by an encoder with
  \<open>SetIndent(2)\<close>, \<open>strings.TrimSpace\<close>). They are parameters of the model.
  \<open>Unmarshal\<close> returns the decoded node together with the store its pointers refer to.
\<close>

record deps =
  ParseComment :: "string \<Rightarrow> Comments"
  Comment_String :: "Comment \<Rightarrow> string"
  Section_String :: "CommentSection \<Rightarrow> string"
  Unmarshal :: "string \<Rightarrow> yaml_Node \<times> store"
  ShortTag :: "store \<Rightarrow> yaml_Node \<Rightarrow> string"
  Reencode :: "store \<Rightarrow> yaml_Node \<Rightarrow> string"
  TrimSpace :: "string \<Rightarrow> string"

text \<open>A run-time panic aborts the program; an \<open>error\<close> value is returned to the caller.\<close>

datatype panic = NilPointerDereference | IndexOutOfRange

type_synonym go_error = string

text \<open>The document under construction and the lines written by \<open>log.Println\<close>.\<close>

record state =
  document :: Document
  logged :: "string list"

section \<open>Type and default inference\<close>

definition getTypeOf :: "deps \<Rightarrow> store \<Rightarrow> Node \<Rightarrow> Comment \<Rightarrow> string" where
  "getTypeOf D S node comment =
     (let typ = GetString (Tags comment) TagType in
      if typ \<noteq> [] then typ
      else case RawNode node of
             None \<Rightarrow> ''unknown''
           | Some a \<Rightarrow>
               (let t = ShortTag D S (S a) in
                if t = ''!!bool'' then ''bool''
                else if t = ''!!str'' then ''string''
                else if t = ''!!int'' then ''number''
                else if t = ''!!float'' then ''number''
                else if t = ''!!timestamp'' then ''timestamp''
                else if t = ''!!seq'' then ''array''
                else if t = ''!!map'' then ''object''
                else ''unknown''))"

definition getDefaultValue :: "deps \<Rightarrow> store \<Rightarrow> Node \<Rightarrow> Comment \<Rightarrow> panic + string" where
  "getDefaultValue D S n c =
     (let def = GetString (Tags c) TagDefault in
      if def \<noteq> [] then Inr def
      else case RawNode n of
             None \<Rightarrow> Inl NilPointerDereference
           | Some a \<Rightarrow> Inr (TrimSpace D (Reencode D S (S a))))"

section \<open>End nodes\<close>

definition isEndNode :: "store \<Rightarrow> Node \<Rightarrow> Comment \<Rightarrow> panic + bool" where
  "isEndNode S n c =
     (case RawNode n of
        None \<Rightarrow> Inl NilPointerDereference
      | Some a \<Rightarrow>
          Inr (if Kind (S a) = DocumentNode then False
               else if Kind (S a) = ScalarNode then True
               else if GetBool (Tags c) TagProperty then True
               else if Kind (S a) = MappingNode then length (Content (S a)) = 0
               else if Kind (S a) = SequenceNode then length (Content (S a)) = 0
               else False))"

section \<open>Section and property assembly from forwarded comments\<close>

text \<open>The loop of lines 97 to 102: \<open>codeIdx\<close> starts at \<open>-1\<close> and is assigned at every
  section of type code; the loop has no \<open>break\<close>.\<close>

fun find_codeIdx :: "nat \<Rightarrow> CommentSection list \<Rightarrow> int \<Rightarrow> int" where
  "find_codeIdx i [] codeIdx = codeIdx"
| "find_codeIdx i (section # rest) codeIdx =
     find_codeIdx (Suc i) rest
       (if CommentSection.Type section = CommentTypeCode then int i else codeIdx)"

text \<open>The loop of lines 133 to 139: every section but the one at \<open>codeIdx\<close>.\<close>

fun remove_section :: "nat \<Rightarrow> int \<Rightarrow> CommentSection list \<Rightarrow> CommentSection list" where
  "remove_section i codeIdx [] = []"
| "remove_section i codeIdx (section # rest) =
     (if int i = codeIdx then remove_section (Suc i) codeIdx rest
      else section # remove_section (Suc i) codeIdx rest)"

text \<open>Lines 104 to 142 for one comment: the node inferred from the code block (with the
  store its raw node lives in) and the comment, with the code block removed when the
  block parsed as a single-key mapping.\<close>

definition inferProperty :: "deps \<Rightarrow> Path \<Rightarrow> Comment \<Rightarrow> Node \<times> store \<times> Comment" where
  "inferProperty D path comment =
     (let codeIdx = find_codeIdx 0 (Comment.Sections comment) (- 1);
          parsedNode = \<lparr>Path = [], HeadComments = [comment], Node.FootComment = [], RawNode = None\<rparr>
      in if codeIdx \<noteq> - 1 then
           (let codeSection = Comment.Sections comment ! nat codeIdx;
                (node, S') = Unmarshal D (Section_String D codeSection)
            in if length (Content node) \<noteq> 0
                  \<and> Kind (S' (Content node ! 0)) = MappingNode
                  \<and> length (Content (S' (Content node ! 0))) = 2
               then
                 (let keyNode = S' (Content (S' (Content node ! 0)) ! 0);
                      valueNode = Content (S' (Content node ! 0)) ! 1
                  in (parsedNode\<lparr>Path := WithProperty path (Value keyNode), RawNode := Some valueNode\<rparr>,
                      S',
                      \<lparr>Tags = Tags comment,
                       Comment.Sections = remove_section 0 codeIdx (Comment.Sections comment)\<rparr>))
               else (parsedNode, S', comment))
         else (parsedNode, (\<lambda>a. zero_yaml_Node), comment))"

text \<open>Lines 72 to 73 and 155 to 156: append to the properties of the last section. The
  index \<open>len(document.Sections) - 1\<close> is out of range when there is no section.\<close>

definition appendProperty :: "Document \<Rightarrow> Property \<Rightarrow> panic + Document" where
  "appendProperty doc p =
     (if Document.Sections doc = [] then Inl IndexOutOfRange
      else Inr (doc\<lparr>Document.Sections :=
             butlast (Document.Sections doc) @
             [(last (Document.Sections doc))
                \<lparr>Properties := Properties (last (Document.Sections doc)) @ [p]\<rparr>]\<rparr>))"

fun parseCommentsOntoDocument :: "deps \<Rightarrow> Path \<Rightarrow> state \<Rightarrow> Comments \<Rightarrow> panic + state" where
  "parseCommentsOntoDocument D path st [] = Inr st"
| "parseCommentsOntoDocument D path st (comment # comments) =
     (if GetBool (Tags comment) TagSection then
        parseCommentsOntoDocument D path
          (st\<lparr>document := (document st)\<lparr>Document.Sections := Document.Sections (document st) @
              [\<lparr>Section.Name = GetString (Tags comment) TagSection,
                Section.Description = Comment_String D comment,
                Properties = []\<rparr>]\<rparr>\<rparr>)
          comments
      else if GetBool (Tags comment) TagProperty then
        (case inferProperty D path comment of
           (parsedNode, S', comment') \<Rightarrow>
             (let name = GetString (Tags comment') TagProperty;
                  name = (if name = [] then Path_String (Path parsedNode) else name)
              in if name = [] then
                   parseCommentsOntoDocument D path
                     (st\<lparr>logged := logged st @ [''could not calculate undefined property name'']\<rparr>)
                     comments
                 else
                   (case appendProperty (document st)
                           \<lparr>Property.Name = name, Property.Description = comment',
                            Property.Type = getTypeOf D S' parsedNode comment',
                            Default = ''undefined''\<rparr> of
                      Inl e \<Rightarrow> Inl e
                    | Inr doc \<Rightarrow> parseCommentsOntoDocument D path (st\<lparr>document := doc\<rparr>) comments)))
      else parseCommentsOntoDocument D path st comments)"

section \<open>The callback of Load\<close>

text \<open>The closure passed to \<open>walk\<close>. The deferred call on the foot comments runs when the
  closure returns, after its body; a panic in the body stays a panic.\<close>

definition visit_body :: "deps \<Rightarrow> store \<Rightarrow> Node \<Rightarrow> Comment \<Rightarrow> state \<Rightarrow>
    panic + (bool \<times> go_error option) \<times> state" where
  "visit_body D S node comment st =
     (if GetBool (Tags comment) TagIgnore then Inr ((True, None), st)
      else case isEndNode S node comment of
             Inl e \<Rightarrow> Inl e
           | Inr False \<Rightarrow>
               (case parseCommentsOntoDocument D (Parent (Path node)) st [comment] of
                  Inl e \<Rightarrow> Inl e
                | Inr st' \<Rightarrow> Inr ((False, None), st'))
           | Inr True \<Rightarrow>
               (case getDefaultValue D S node comment of
                  Inl e \<Rightarrow> Inl e
                | Inr def \<Rightarrow>
                    (case appendProperty (document st)
                            \<lparr>Property.Name = Path_String (Path node), Property.Description = comment,
                             Property.Type = getTypeOf D S node comment, Default = def\<rparr> of
                       Inl e \<Rightarrow> Inl e
                     | Inr doc \<Rightarrow> Inr ((True, None), st\<lparr>document := doc\<rparr>))))"

definition visit :: "deps \<Rightarrow> store \<Rightarrow> Node \<Rightarrow> state \<Rightarrow> panic + (bool \<times> go_error option) \<times> state" where
  "visit D S node st =
     (case Pop (HeadComments node) of
        (comment, headComments) \<Rightarrow>
          (case parseCommentsOntoDocument D (Parent (Path node)) st headComments of
             Inl e \<Rightarrow> Inl e
           | Inr st1 \<Rightarrow>
               (case visit_body D S (node\<lparr>HeadComments := headComments\<rparr>) comment st1 of
                  Inl e \<Rightarrow> Inl e
                | Inr (r, st2) \<Rightarrow>
                    (case parseCommentsOntoDocument D (Parent (Path node)) st2 (Node.FootComment node) of
                       Inl e \<Rightarrow> Inl e
                     | Inr st3 \<Rightarrow> Inr (r, st3)))))"

section \<open>The walk\<close>

text \<open>The child nodes each branch of the \<open>switch\<close> in \<open>walk\<close> builds, in loop order. The
  mapping loop reads \<open>Content[i+1]\<close>, which is out of range for a content of odd length.\<close>

fun sequence_children :: "deps \<Rightarrow> Node \<Rightarrow> yaml_Node \<Rightarrow> nat \<Rightarrow> addr list \<Rightarrow> (panic + Node) list" where
  "sequence_children D root raw i [] = []"
| "sequence_children D root raw i (node # rest) =
     Inr \<lparr>Path = WithIndex (Path root) i,
          HeadComments = ParseComment D (HeadComment raw),
          Node.FootComment = ParseComment D (yaml_Node.FootComment raw),
          RawNode = Some node\<rparr>
     # sequence_children D root raw (Suc i) rest"

fun mapping_children :: "deps \<Rightarrow> store \<Rightarrow> Node \<Rightarrow> addr list \<Rightarrow> (panic + Node) list" where
  "mapping_children D S root [] = []"
| "mapping_children D S root [keyNode] = [Inl IndexOutOfRange]"
| "mapping_children D S root (keyNode # valueNode # rest) =
     Inr \<lparr>Path = WithProperty (Path root) (Value (S keyNode)),
          HeadComments = ParseComment D (HeadComment (S keyNode)),
          Node.FootComment = ParseComment D (yaml_Node.FootComment (S keyNode)),
          RawNode = Some valueNode\<rparr>
     # mapping_children D S root rest"

fun document_children :: "deps \<Rightarrow> store \<Rightarrow> Node \<Rightarrow> addr list \<Rightarrow> (panic + Node) list" where
  "document_children D S root [] = []"
| "document_children D S root (node # rest) =
     Inr \<lparr>Path = Path root,
          HeadComments = ParseComment D (HeadComment (S node)),
          Node.FootComment = ParseComment D (yaml_Node.FootComment (S node)),
          RawNode = Some node\<rparr>
     # document_children D S root rest"

definition children :: "deps \<Rightarrow> store \<Rightarrow> Node \<Rightarrow> yaml_Node \<Rightarrow> (panic + Node) list" where
  "children D S root raw =
     (case Kind raw of
        SequenceNode \<Rightarrow> sequence_children D root raw 0 (Content raw)
      | MappingNode \<Rightarrow> mapping_children D S root (Content raw)
      | DocumentNode \<Rightarrow> document_children D S root (Content raw)
      | AliasNode \<Rightarrow>
          [Inr \<lparr>Path = Path root,
                HeadComments = ParseComment D (HeadComment raw),
                Node.FootComment = ParseComment D (yaml_Node.FootComment raw),
                RawNode = Alias raw\<rparr>]
      | _ \<Rightarrow> [])"

text \<open>
  \<open>walk\<close> recurses as deep as the tree, and through alias targets: the first argument bounds
  the depth of the recursion, and \<open>None\<close> is the result of a walk that needs more.
  \<open>walk_each\<close> is the loop over the children, left at the first error.
\<close>

fun walk :: "nat \<Rightarrow> deps \<Rightarrow> store \<Rightarrow> (Node \<Rightarrow> 's \<Rightarrow> panic + (bool \<times> go_error option) \<times> 's) \<Rightarrow>
    Node \<Rightarrow> 's \<Rightarrow> (panic + go_error option \<times> 's) option"
and walk_each :: "nat \<Rightarrow> deps \<Rightarrow> store \<Rightarrow> (Node \<Rightarrow> 's \<Rightarrow> panic + (bool \<times> go_error option) \<times> 's) \<Rightarrow>
    (panic + Node) list \<Rightarrow> 's \<Rightarrow> (panic + go_error option \<times> 's) option"
where
  "walk 0 D S fn root st = None"
| "walk (Suc k) D S fn root st =
     (case fn root st of
        Inl e \<Rightarrow> Some (Inl e)
      | Inr ((stop, err), st') \<Rightarrow>
          if err \<noteq> None then Some (Inr (err, st'))
          else if stop then Some (Inr (None, st'))
          else case RawNode root of
                 None \<Rightarrow> Some (Inl NilPointerDereference)
               | Some a \<Rightarrow> walk_each k D S fn (children D S root (S a)) st')"
| "walk_each k D S fn [] st = Some (Inr (None, st))"
| "walk_each k D S fn (Inl e # rest) st = Some (Inl e)"
| "walk_each k D S fn (Inr n # rest) st =
     (case walk k D S fn n st of
        None \<Rightarrow> None
      | Some (Inl e) \<Rightarrow> Some (Inl e)
      | Some (Inr (Some err, st')) \<Rightarrow> Some (Inr (Some err, st'))
      | Some (Inr (None, st')) \<Rightarrow> walk_each k D S fn rest st')"

text \<open>\<open>Load\<close> after the file is opened and decoded into the node at address \<open>root\<close>: one
  zero section, then the walk from the root.\<close>

definition zero_Section :: Section where
  "zero_Section = \<lparr>Section.Name = [], Section.Description = [], Properties = []\<rparr>"

definition initial_state :: state where
  "initial_state = \<lparr>document = \<lparr>Document.Sections = [zero_Section]\<rparr>, logged = []\<rparr>"

definition root_Node :: "deps \<Rightarrow> store \<Rightarrow> addr \<Rightarrow> Node" where
  "root_Node D S root =
     \<lparr>Path = [],
      HeadComments = ParseComment D (HeadComment (S root)),
      Node.FootComment = ParseComment D (yaml_Node.FootComment (S root)),
      RawNode = Some root\<rparr>"

definition Load :: "nat \<Rightarrow> deps \<Rightarrow> store \<Rightarrow> addr \<Rightarrow> (panic + go_error option \<times> state) option" where
  "Load k D S root = walk k D S (visit D S) (root_Node D S root) initial_state"

section \<open>The comment parser of the spec, and a small YAML library for examples\<close>

text \<open>Modelled from the spec: \<open>ParseComment\<close>, which is not among the sources. The text is
  split into lines; lines are grouped into blocks separated by one or more blank lines,
  one comment per block, in source order. In a block a line that is a directive name,
  alone or followed by \<open>=value\<close>, sets a tag (the empty value when alone); a line that opens
  with three backquotes starts or ends a fenced block, which becomes a code section
  holding the lines between the fences; the other lines, while contiguous, become a text
  section.\<close>

fun split_lines :: "string \<Rightarrow> string \<Rightarrow> string list" where
  "split_lines [] cur = [cur]"
| "split_lines (c # cs) cur =
     (if c = CHR 0x0A then cur # split_lines cs [] else split_lines cs (cur @ [c]))"

definition blank_line :: "string \<Rightarrow> bool" where
  "blank_line l = list_all (\<lambda>c. c = CHR '' '' \<or> c = CHR 0x09) l"

fun blocks :: "string list \<Rightarrow> string list \<Rightarrow> string list list" where
  "blocks [] cur = (if cur = [] then [] else [cur])"
| "blocks (l # ls) cur =
     (if blank_line l then (if cur = [] then blocks ls [] else cur # blocks ls [])
      else blocks ls (cur @ [l]))"

definition directive_names :: "string list" where
  "directive_names = [TagSection, TagIgnore, TagType, TagDefault, TagProperty]"

fun directive_of :: "string list \<Rightarrow> string \<Rightarrow> (string \<times> string) option" where
  "directive_of [] l = None"
| "directive_of (name # names) l =
     (if l = name then Some (name, [])
      else if take (Suc (length name)) l = name @ ''='' then Some (name, drop (Suc (length name)) l)
      else directive_of names l)"

definition is_fence :: "string \<Rightarrow> bool" where
  "is_fence l = (take 3 l = ''```'')"

fun join_lines :: "string list \<Rightarrow> string" where
  "join_lines [] = []"
| "join_lines [l] = l"
| "join_lines (l # ls) = l @ CHR 0x0A # join_lines ls"

definition flush :: "bool \<Rightarrow> string list \<Rightarrow> CommentSection list" where
  "flush in_code cur =
     (if in_code then [\<lparr>CommentSection.Type = CommentTypeCode, content = join_lines cur\<rparr>]
      else if cur = [] then []
      else [\<lparr>CommentSection.Type = CommentTypeText, content = join_lines cur\<rparr>])"

fun parse_block :: "string list \<Rightarrow> Tags \<Rightarrow> CommentSection list \<Rightarrow> bool \<Rightarrow> string list \<Rightarrow> Comment" where
  "parse_block [] tags secs in_code cur =
     \<lparr>Tags = tags, Comment.Sections = secs @ flush in_code cur\<rparr>"
| "parse_block (l # ls) tags secs in_code cur =
     (if is_fence l then parse_block ls tags (secs @ flush in_code cur) (\<not> in_code) []
      else if in_code then parse_block ls tags secs True (cur @ [l])
      else case directive_of directive_names l of
             Some (name, v) \<Rightarrow> parse_block ls (tags(name \<mapsto> v)) secs False cur
           | None \<Rightarrow> parse_block ls tags secs False (cur @ [l]))"

definition ParseComment_spec :: "string \<Rightarrow> Comments" where
  "ParseComment_spec text = map (\<lambda>b. parse_block b Map.empty [] False []) (blocks (split_lines text []) [])"

text \<open>Modelled from the spec: \<open>Comment.String\<close>, the sections in order, a code section
  fenced again. The \<open>String\<close> of one section, which the spec does not describe, is taken to
  be its content.\<close>

definition Comment_String_spec :: "Comment \<Rightarrow> string" where
  "Comment_String_spec c =
     join_lines (map (\<lambda>s. if CommentSection.Type s = CommentTypeCode
                           then ''```'' @ CHR 0x0A # content s @ CHR 0x0A # ''```''
                           else content s) (Comment.Sections c))"

text \<open>
  The YAML and string operations used in the examples cover what the examples need and no
  more. \<open>Unmarshal_kv\<close> decodes a one-line text \<open>key: value\<close> into a document node over a
  mapping of one scalar key and one scalar value, and leaves the node zero on any other
  text. \<open>ShortTag_kind\<close> is the tag of the node's kind, a scalar being a boolean, an
  integer or a string by its value. \<open>Reencode_scalar\<close> writes a scalar's value and a line
  break. \<open>TrimSpace_ascii\<close> trims the ASCII white space.
\<close>

fun split_colon :: "string \<Rightarrow> string \<Rightarrow> (string \<times> string) option" where
  "split_colon [] key = None"
| "split_colon [c] key = None"
| "split_colon (c # d # cs) key =
     (if c = CHR 0x0A then None
      else if c = CHR '':'' \<and> d = CHR '' '' then Some (key, cs)
      else split_colon (d # cs) (key @ [c]))"

definition scalar_Node :: "string \<Rightarrow> yaml_Node" where
  "scalar_Node v = zero_yaml_Node\<lparr>Kind := ScalarNode, Value := v\<rparr>"

definition Unmarshal_kv :: "string \<Rightarrow> yaml_Node \<times> store" where
  "Unmarshal_kv text =
     (case split_colon text [] of
        None \<Rightarrow> (zero_yaml_Node, (\<lambda>a. zero_yaml_Node))
      | Some (k, v) \<Rightarrow>
          if k = [] \<or> v = [] \<or> CHR 0x0A \<in> set v then (zero_yaml_Node, (\<lambda>a. zero_yaml_Node))
          else (zero_yaml_Node\<lparr>Kind := DocumentNode, Content := [20]\<rparr>,
                (\<lambda>a. zero_yaml_Node)
                  (20 := zero_yaml_Node\<lparr>Kind := MappingNode, Content := [21, 22]\<rparr>,
                   21 := scalar_Node k,
                   22 := scalar_Node v)))"

definition ShortTag_kind :: "store \<Rightarrow> yaml_Node \<Rightarrow> string" where
  "ShortTag_kind S n =
     (case Kind n of
        MappingNode \<Rightarrow> ''!!map''
      | SequenceNode \<Rightarrow> ''!!seq''
      | ScalarNode \<Rightarrow>
          if Value n = ''true'' \<or> Value n = ''false'' then ''!!bool''
          else if Value n \<noteq> [] \<and> list_all is_digit (Value n) then ''!!int''
          else ''!!str''
      | _ \<Rightarrow> [])"

definition Reencode_scalar :: "store \<Rightarrow> yaml_Node \<Rightarrow> string" where
  "Reencode_scalar S n = Value n @ [CHR 0x0A]"

definition ascii_space :: "char \<Rightarrow> bool" where
  "ascii_space c = (c = CHR '' '' \<or> c = CHR 0x09 \<or> c = CHR 0x0A \<or> c = CHR 0x0B \<or> c = CHR 0x0C \<or> c = CHR 0x0D)"

definition TrimSpace_ascii :: "string \<Rightarrow> string" where
  "TrimSpace_ascii s = rev (dropWhile ascii_space (rev (dropWhile ascii_space s)))"

definition example_deps :: deps where
  "example_deps =
     \<lparr>ParseComment = ParseComment_spec,
      Comment_String = Comment_String_spec,
      Section_String = content,
      Unmarshal = Unmarshal_kv,
      ShortTag = ShortTag_kind,
      Reencode = Reencode_scalar,
      TrimSpace = TrimSpace_ascii\<rparr>"

section \<open>Predicates used in the statements\<close>

text \<open>The decoded code block is a document over a mapping with one key and one value
  (the three nested tests of lines 116 to 120).\<close>

definition single_key :: "yaml_Node \<Rightarrow> store \<Rightarrow> bool" where
  "single_key node S' = (length (Content node) \<noteq> 0
      \<and> Kind (S' (Content node ! 0)) = MappingNode
      \<and> length (Content (S' (Content node ! 0))) = 2)"

text \<open>\<open>grows d d'\<close>: from \<open>d\<close> to \<open>d'\<close>, properties were appended to the last section of \<open>d\<close>
  and sections were appended after it; the earlier sections are unchanged.
  \<open>appends d d'\<close>: the same with no new section.\<close>

definition add_properties :: "Property list \<Rightarrow> Section \<Rightarrow> Section" where
  "add_properties ps s = s\<lparr>Properties := Properties s @ ps\<rparr>"

definition grows :: "Document \<Rightarrow> Document \<Rightarrow> bool" where
  "grows d d' = (Document.Sections d \<noteq> [] \<and>
     (\<exists>ps new. Document.Sections d' =
        butlast (Document.Sections d) @ [add_properties ps (last (Document.Sections d))] @ new))"

definition appends :: "Document \<Rightarrow> Document \<Rightarrow> bool" where
  "appends d d' = (Document.Sections d \<noteq> [] \<and>
     (\<exists>ps. Document.Sections d' =
        butlast (Document.Sections d) @ [add_properties ps (last (Document.Sections d))]))"

text \<open>No comment of the list, and no comment parsed from a node of the tree, carries the
  section directive.\<close>

definition no_section :: "Comments \<Rightarrow> bool" where
  "no_section cs = list_all (\<lambda>c. \<not> GetBool (Tags c) TagSection) cs"

definition no_section_directives :: "deps \<Rightarrow> store \<Rightarrow> bool" where
  "no_section_directives D S =
     (\<forall>a. no_section (ParseComment D (HeadComment (S a)))
        \<and> no_section (ParseComment D (yaml_Node.FootComment (S a))))"

text \<open>The names, descriptions and defaults of the properties of a result, section by
  section.\<close>

definition all_properties :: "panic + state \<Rightarrow> Property list" where
  "all_properties r = (case r of Inl e \<Rightarrow> [] | Inr st \<Rightarrow>
      concat (map Properties (Document.Sections (document st))))"

definition property_names :: "panic + state \<Rightarrow> string list" where
  "property_names r = map Property.Name (all_properties r)"

definition property_defaults :: "panic + state \<Rightarrow> string list" where
  "property_defaults r = map Default (all_properties r)"

definition property_descriptions :: "panic + state \<Rightarrow> CommentSection list list" where
  "property_descriptions r = map (\<lambda>p. Comment.Sections (Property.Description p)) (all_properties r)"

text \<open>\<open>bounded k S p\<close>: the tree under the pointer \<open>p\<close>, alias targets included, is less than
  \<open>k\<close> levels deep. A tree with a cycle through an alias is bounded by no \<open>k\<close>.\<close>

fun bounded :: "nat \<Rightarrow> store \<Rightarrow> addr option \<Rightarrow> bool" where
  "bounded 0 S p = False"
| "bounded (Suc k) S None = True"
| "bounded (Suc k) S (Some a) =
     (case Kind (S a) of
        SequenceNode \<Rightarrow> list_all (\<lambda>c. bounded k S (Some c)) (Content (S a))
      | MappingNode \<Rightarrow> list_all (\<lambda>c. bounded k S (Some c)) (Content (S a))
      | DocumentNode \<Rightarrow> list_all (\<lambda>c. bounded k S (Some c)) (Content (S a))
      | AliasNode \<Rightarrow> bounded k S (Alias (S a))
      | _ \<Rightarrow> True)"

text \<open>The same for a child of the walk; a child that is a panic needs no depth.\<close>

definition child_bounded :: "nat \<Rightarrow> store \<Rightarrow> (panic + Node) \<Rightarrow> bool" where
  "child_bounded k S x = (case x of Inl e \<Rightarrow> True | Inr c \<Rightarrow> bounded k S (RawNode c))"

text \<open>\<open>well_formed k S p\<close>: the tree under \<open>p\<close> is bounded by \<open>k\<close> and is one the decoder
  builds: no pointer on the way is \<open>nil\<close>, and the content of a mapping comes in pairs.\<close>

fun well_formed :: "nat \<Rightarrow> store \<Rightarrow> addr option \<Rightarrow> bool" where
  "well_formed 0 S p = False"
| "well_formed (Suc k) S None = False"
| "well_formed (Suc k) S (Some a) =
     (case Kind (S a) of
        SequenceNode \<Rightarrow> list_all (\<lambda>c. well_formed k S (Some c)) (Content (S a))
      | MappingNode \<Rightarrow> even (length (Content (S a)))
          \<and> list_all (\<lambda>c. well_formed k S (Some c)) (Content (S a))
      | DocumentNode \<Rightarrow> list_all (\<lambda>c. well_formed k S (Some c)) (Content (S a))
      | AliasNode \<Rightarrow> well_formed k S (Alias (S a))
      | _ \<Rightarrow> True)"

definition child_well_formed :: "nat \<Rightarrow> store \<Rightarrow> (panic + Node) \<Rightarrow> bool" where
  "child_well_formed k S x = (case x of Inl e \<Rightarrow> False | Inr c \<Rightarrow> well_formed k S (RawNode c))"

section \<open>The properties a walk discovers\<close>

text \<open>
  The properties of a document in the order of its sections, and, stated without the
  document, the properties a walk discovers in the order it discovers them.
  \<open>synthetic_properties\<close>: the properties declared by forwarded comments, one for each
  comment that sets \<open>docs:property\<close> (and not \<open>docs:section\<close>) and yields a name.
  \<open>node_properties\<close>: what one visit discovers, from the remaining head comments, then the
  node itself (its property when it is an end node, the property its own comment declares
  when it is not, nothing when it is ignored), then the foot comments.
  \<open>discovered\<close>: the node first, then its children from left to right, to the depth \<open>k\<close>;
  nothing below an ignored node or an end node.
\<close>

definition document_properties :: "Document \<Rightarrow> Property list" where
  "document_properties d = concat (map Properties (Document.Sections d))"

definition synthetic_property :: "deps \<Rightarrow> Path \<Rightarrow> Comment \<Rightarrow> Property list" where
  "synthetic_property D path c =
     (if GetBool (Tags c) TagSection then []
      else if GetBool (Tags c) TagProperty then
        (case inferProperty D path c of
           (pn, S', c') \<Rightarrow>
             (let name = (if GetString (Tags c) TagProperty \<noteq> [] then GetString (Tags c) TagProperty
                          else Path_String (Path pn))
              in if name = [] then []
                 else [\<lparr>Property.Name = name, Property.Description = c',
                        Property.Type = getTypeOf D S' pn c', Default = ''undefined''\<rparr>]))
      else [])"

definition synthetic_properties :: "deps \<Rightarrow> Path \<Rightarrow> Comments \<Rightarrow> Property list" where
  "synthetic_properties D path cs = concat (map (synthetic_property D path) cs)"

definition end_node_property :: "deps \<Rightarrow> store \<Rightarrow> Node \<Rightarrow> Comment \<Rightarrow> addr \<Rightarrow> Property" where
  "end_node_property D S n c a =
     \<lparr>Property.Name = Path_String (Path n), Property.Description = c,
      Property.Type = getTypeOf D S n c,
      Default = (if GetString (Tags c) TagDefault \<noteq> [] then GetString (Tags c) TagDefault
                 else TrimSpace D (Reencode D S (S a)))\<rparr>"

definition descends :: "store \<Rightarrow> Node \<Rightarrow> bool" where
  "descends S n =
     (case Pop (HeadComments n) of
        (c, hs) \<Rightarrow> \<not> GetBool (Tags c) TagIgnore \<and> isEndNode S n c = Inr False)"

definition node_properties :: "deps \<Rightarrow> store \<Rightarrow> Node \<Rightarrow> Property list" where
  "node_properties D S n =
     (case Pop (HeadComments n) of
        (c, hs) \<Rightarrow>
          synthetic_properties D (Parent (Path n)) hs
          @ (if GetBool (Tags c) TagIgnore then []
             else case RawNode n of
                    None \<Rightarrow> []
                  | Some a \<Rightarrow>
                      if isEndNode S n c = Inr True then [end_node_property D S n c a]
                      else synthetic_properties D (Parent (Path n)) [c])
          @ synthetic_properties D (Parent (Path n)) (Node.FootComment n))"

fun discovered :: "nat \<Rightarrow> deps \<Rightarrow> store \<Rightarrow> Node \<Rightarrow> Property list" where
  "discovered 0 D S n = []"
| "discovered (Suc k) D S n =
     node_properties D S n
     @ (if descends S n then
          (case RawNode n of
             None \<Rightarrow> []
           | Some a \<Rightarrow>
               concat (map (\<lambda>x. case x of Inl e \<Rightarrow> [] | Inr c \<Rightarrow> discovered k D S c)
                         (children D S n (S a))))
        else [])"

text \<open>What the walk over a list of children discovers.\<close>

definition children_discovered :: "nat \<Rightarrow> deps \<Rightarrow> store \<Rightarrow> (panic + Node) list \<Rightarrow> Property list" where
  "children_discovered k D S ns =
     concat (map (\<lambda>x. case x of Inl e \<Rightarrow> [] | Inr c \<Rightarrow> discovered k D S c) ns)"

section \<open>Example trees\<close>

text \<open>The decoded form of
  \<^verbatim>\<open>a: 1\<close>, then \<^verbatim>\<open>b:\<close> over the one-element sequence \<^verbatim>\<open>- x\<close>, the key \<open>b\<close> under the head
  comment \<^verbatim>\<open>docs:ignore\<close>: the document node at address 10, its mapping at 11, the keys at
  12 and 14, the values at 13 and 15, the element at 16.\<close>

definition example_tree :: store where
  "example_tree =
     (\<lambda>a. zero_yaml_Node)
       (10 := zero_yaml_Node\<lparr>Kind := DocumentNode, Content := [11]\<rparr>,
        11 := zero_yaml_Node\<lparr>Kind := MappingNode, Content := [12, 13, 14, 15]\<rparr>,
        12 := scalar_Node ''a'',
        13 := scalar_Node ''1'',
        14 := (scalar_Node ''b'')\<lparr>HeadComment := ''docs:ignore''\<rparr>,
        15 := zero_yaml_Node\<lparr>Kind := SequenceNode, Content := [16]\<rparr>,
        16 := scalar_Node ''x'')"

text \<open>The decoded form of \<^verbatim>\<open>&x [*x]\<close>, a sequence whose only element is an alias of the
  sequence itself: the document node at address 10, the anchored sequence at 11, the
  alias node at 12 with the sequence as its target.\<close>

definition cyclic_tree :: store where
  "cyclic_tree =
     (\<lambda>a. zero_yaml_Node)
       (10 := zero_yaml_Node\<lparr>Kind := DocumentNode, Content := [11]\<rparr>,
        11 := zero_yaml_Node\<lparr>Kind := SequenceNode, Content := [12]\<rparr>,
        12 := zero_yaml_Node\<lparr>Kind := AliasNode, Alias := Some 11\<rparr>)"

text \<open>The document \<open>Load\<close> builds from \<open>example_tree\<close>: the implicit section with the one
  property \<open>a\<close>.\<close>

definition example_document :: Document where
  "example_document = \<lparr>Document.Sections =
      [\<lparr>Section.Name = [], Section.Description = [],
        Properties = [\<lparr>Property.Name = ''a'', Property.Description = zero_Comment,
                       Property.Type = ''number'', Default = ''1''\<rparr>]\<rparr>]\<rparr>"

text \<open>The child node the walk builds for the key \<open>b\<close> of \<open>example_tree\<close>, and the one it
  builds for the key \<open>a\<close>.\<close>

definition ignored_Node :: Node where
  "ignored_Node = \<lparr>Path = [stringPathComponent ''b''],
     HeadComments = [\<lparr>Tags = [TagIgnore \<mapsto> []], Comment.Sections = []\<rparr>],
     Node.FootComment = [], RawNode = Some 15\<rparr>"

definition scalar_child_Node :: Node where
  "scalar_child_Node = \<lparr>Path = [stringPathComponent ''a''], HeadComments = [],
     Node.FootComment = [], RawNode = Some 13\<rparr>"

section \<open>Example comments\<close>

text \<open>A property comment with two code blocks, \<^verbatim>\<open>a: 1\<close> before \<^verbatim>\<open>b: 2\<close>.\<close>

definition code_a :: CommentSection where
  "code_a = \<lparr>CommentSection.Type = CommentTypeCode, content = ''a: 1''\<rparr>"

definition code_b :: CommentSection where
  "code_b = \<lparr>CommentSection.Type = CommentTypeCode, content = ''b: 2''\<rparr>"

definition two_code_comment :: Comment where
  "two_code_comment = \<lparr>Tags = [TagProperty \<mapsto> []], Comment.Sections = [code_a, code_b]\<rparr>"

text \<open>A property comment with the explicit name \<open>explicit.name\<close> and the code block
  \<^verbatim>\<open>foo: bar\<close>; the same comment without the explicit name; and a property comment with
  neither a name nor a code block.\<close>

definition code_foo :: CommentSection where
  "code_foo = \<lparr>CommentSection.Type = CommentTypeCode, content = ''foo: bar''\<rparr>"

definition explicit_name_comment :: Comment where
  "explicit_name_comment =
     \<lparr>Tags = [TagProperty \<mapsto> ''explicit.name''], Comment.Sections = [code_foo]\<rparr>"

definition inferred_name_comment :: Comment where
  "inferred_name_comment = \<lparr>Tags = [TagProperty \<mapsto> []], Comment.Sections = [code_foo]\<rparr>"

definition nameless_comment :: Comment where
  "nameless_comment = \<lparr>Tags = [TagProperty \<mapsto> []], Comment.Sections = []\<rparr>"

text \<open>A property comment that names the property \<open>replicas\<close> and carries
  \<^verbatim>\<open>docs:default=3\<close>; a comment with \<^verbatim>\<open>docs:type=integer\<close> and \<^verbatim>\<open>docs:default=3\<close>.\<close>

definition default_tag_comment :: Comment where
  "default_tag_comment =
     \<lparr>Tags = [TagProperty \<mapsto> ''replicas'', TagDefault \<mapsto> ''3''], Comment.Sections = []\<rparr>"

definition typed_comment :: Comment where
  "typed_comment = \<lparr>Tags = [TagType \<mapsto> ''integer'', TagDefault \<mapsto> ''3''], Comment.Sections = []\<rparr>"

text \<open>The nodes of \<open>example_tree\<close> the walk passes on its way down: the mapping under the
  document, and the sequence under the key \<open>b\<close> (what the walk would build for it, were it
  not ignored). A node with no raw node.\<close>

definition mapping_Node :: Node where
  "mapping_Node = \<lparr>Path = [], HeadComments = [], Node.FootComment = [], RawNode = Some 11\<rparr>"

definition sequence_Node :: Node where
  "sequence_Node = \<lparr>Path = [stringPathComponent ''b''], HeadComments = [],
     Node.FootComment = [], RawNode = Some 15\<rparr>"

definition nil_Node :: Node where
  "nil_Node = \<lparr>Path = [], HeadComments = [], Node.FootComment = [], RawNode = None\<rparr>"

text \<open>The decoded form of \<^verbatim>\<open>a: 1\<close>, then \<^verbatim>\<open>b: 2\<close> under a head comment of two blocks, the
  text \<open>x\<close> and then \<^verbatim>\<open>docs:section=Foo\<close>: the document node at address 30, its mapping at
  31, the keys at 32 and 34, the values at 33 and 35. The document \<open>Load\<close> builds from it
  has the property \<open>a\<close> in the implicit section and the property \<open>b\<close> in the section
  \<open>Foo\<close>.\<close>

definition section_tree :: store where
  "section_tree =
     (\<lambda>a. zero_yaml_Node)
       (30 := zero_yaml_Node\<lparr>Kind := DocumentNode, Content := [31]\<rparr>,
        31 := zero_yaml_Node\<lparr>Kind := MappingNode, Content := [32, 33, 34, 35]\<rparr>,
        32 := scalar_Node ''a'',
        33 := scalar_Node ''1'',
        34 := (scalar_Node ''b'')\<lparr>HeadComment := ''x'' @ [CHR 0x0A, CHR 0x0A] @ ''docs:section=Foo''\<rparr>,
        35 := scalar_Node ''2'')"

definition text_x_Comment :: Comment where
  "text_x_Comment = \<lparr>Tags = Map.empty,
     Comment.Sections = [\<lparr>CommentSection.Type = CommentTypeText, content = ''x''\<rparr>]\<rparr>"

definition property_a :: Property where
  "property_a = \<lparr>Property.Name = ''a'', Property.Description = zero_Comment,
     Property.Type = ''number'', Default = ''1''\<rparr>"

definition property_b :: Property where
  "property_b = \<lparr>Property.Name = ''b'', Property.Description = text_x_Comment,
     Property.Type = ''number'', Default = ''2''\<rparr>"

definition section_document :: Document where
  "section_document = \<lparr>Document.Sections =
      [\<lparr>Section.Name = [], Section.Description = [], Properties = [property_a]\<rparr>,
       \<lparr>Section.Name = ''Foo'', Section.Description = [], Properties = [property_b]\<rparr>]\<rparr>"

text \<open>The nodes of the walk that lie on the cycle of \<open>cyclic_tree\<close>: without comments, at
  the sequence or at the alias, under any path.\<close>

definition cycle_Nodes :: "Node set" where
  "cycle_Nodes = {n. HeadComments n = [] \<and> Node.FootComment n = []
     \<and> (RawNode n = Some 11 \<or> RawNode n = Some 12)}"

section \<open>Properties of the path model\<close>

lemma digit_char_props: "d < 10 \<Longrightarrow> is_digit (digit_char d) \<and> digit_val (digit_char d) = d"
  by (simp add: is_digit_def digit_char_def digit_val_def)

lemma show_nat_digits: "list_all is_digit (show_nat n)"
proof (induction n rule: show_nat.induct)
  case (1 n)
  show ?case
  proof (cases "n < 10")
    case True
    then show ?thesis by (subst show_nat.simps) (simp add: digit_char_props)
  next
    case False
    then show ?thesis using 1 by (subst show_nat.simps) (simp add: digit_char_props)
  qed
qed

lemma show_nat_nonempty: "show_nat n \<noteq> []"
  by (subst show_nat.simps) simp

lemma parse_nat_snoc: "parse_nat (ds @ [c]) = 10 * parse_nat ds + digit_val c"
  by (simp add: parse_nat_def)

lemma parse_show_nat: "parse_nat (show_nat n) = n"
proof (induction n rule: show_nat.induct)
  case (1 n)
  show ?case
  proof (cases "n < 10")
    case True
    then show ?thesis by (subst show_nat.simps) (simp add: parse_nat_def digit_char_props)
  next
    case False
    then have "parse_nat (show_nat (n div 10)) = n div 10" using 1 by simp
    with False show ?thesis
      by (subst show_nat.simps) (simp add: parse_nat_snoc digit_char_props)
  qed
qed

lemma not_digit_close: "\<not> is_digit CHR '']''"
  by (simp add: is_digit_def)

lemma not_name_specials: "\<not> is_name_char CHR ''.''" "\<not> is_name_char CHR ''[''" "\<not> is_name_char CHR '']''"
  by (simp_all add: is_name_char_def)

lemma index_segment_render:
  "index_segment (CHR ''['' # show_nat i @ CHR '']'' # rest) = Some (indexPathComponent i, rest)"
proof -
  have all: "\<And>x. x \<in> set (show_nat i) \<Longrightarrow> is_digit x"
    using show_nat_digits [of i] by (simp add: list_all_iff)
  have t: "takeWhile is_digit (show_nat i @ CHR '']'' # rest) = show_nat i"
    using all by (simp add: takeWhile_append2 not_digit_close)
  have d: "dropWhile is_digit (show_nat i @ CHR '']'' # rest) = CHR '']'' # rest"
    using all by (simp add: dropWhile_append2 not_digit_close)
  show ?thesis
    by (simp add: index_segment_def t d show_nat_nonempty parse_show_nat)
qed

lemma name_of_render:
  assumes "name \<noteq> []" "list_all is_name_char name" "rest = [] \<or> \<not> is_name_char (hd rest)"
  shows "name_of (name @ rest) = Some (stringPathComponent name, rest)"
proof -
  have all: "\<And>x. x \<in> set name \<Longrightarrow> is_name_char x"
    using assms(2) by (simp add: list_all_iff)
  have r: "takeWhile is_name_char rest = []" "dropWhile is_name_char rest = rest"
    using assms(3) by (cases rest; simp)+
  have "takeWhile is_name_char (name @ rest) = name" "dropWhile is_name_char (name @ rest) = rest"
    using all r by (simp_all add: takeWhile_append2 dropWhile_append2)
  then show ?thesis using assms(1) by (simp add: name_of_def)
qed

lemma next_segment_index:
  "next_segment first (CHR ''['' # show_nat i @ CHR '']'' # rest) = Some (indexPathComponent i, rest)"
proof -
  have "property_segment first (CHR ''['' # show_nat i @ CHR '']'' # rest) = None"
    by (simp add: property_segment_def name_of_def not_name_specials)
  then show ?thesis by (simp add: next_segment_def index_segment_render)
qed

lemma next_segment_property:
  assumes "name \<noteq> []" "list_all is_name_char name" "rest = [] \<or> \<not> is_name_char (hd rest)"
  shows "next_segment first (render_step first (stringPathComponent name) @ rest)
           = Some (stringPathComponent name, rest)"
proof (cases first)
  case False
  then show ?thesis
    using name_of_render [OF assms] by (simp add: next_segment_def property_segment_def)
next
  case True
  obtain c n' where n: "name = c # n'" using assms(1) by (cases name) auto
  with assms(2) have "is_name_char c" by simp
  then have "c \<noteq> CHR ''.''" using not_name_specials(1) by auto
  with True n show ?thesis
    using name_of_render [OF assms] by (simp add: next_segment_def property_segment_def)
qed

lemma String_from_boundary:
  "String_from False cs = [] \<or> \<not> is_name_char (hd (String_from False cs))"
  by (cases cs; cases "hd cs") (auto simp: not_name_specials)

lemma next_segment_render:
  assumes "valid_component c"
  shows "next_segment first (render_step first c @ String_from False cs) = Some (c, String_from False cs)"
proof (cases c)
  case (stringPathComponent name)
  with assms have "name \<noteq> []" "list_all is_name_char name" by (simp_all add: valid_component_def)
  from next_segment_property [OF this String_from_boundary] stringPathComponent
  show ?thesis by simp
next
  case (indexPathComponent i)
  then show ?thesis using next_segment_index by simp
qed

lemma render_step_nonempty: "valid_component c \<Longrightarrow> render_step first c \<noteq> []"
  by (cases c) (auto simp: valid_component_def)

lemma parse_loop_render:
  "valid_path p \<Longrightarrow> parse_loop first (String_from first p) acc = (acc @ p, None)"
proof (induction p arbitrary: first acc)
  case Nil
  then show ?case by (simp add: parse_loop.simps)
next
  case (Cons c cs)
  then have vc: "valid_component c" and vcs: "valid_path cs" by (simp_all add: valid_path_def)
  have ne: "render_step first c \<noteq> []" using render_step_nonempty [OF vc] .
  have "parse_loop first (String_from first (c # cs)) acc = parse_loop False (String_from False cs) (acc @ [c])"
    using ne next_segment_render [OF vc, of first cs]
    by (subst parse_loop.simps) simp
  also have "\<dots> = ((acc @ [c]) @ cs, None)" using Cons.IH [OF vcs] .
  finally show ?case by simp
qed

lemma is_digit_name: "is_digit c \<Longrightarrow> is_name_char c"
  by (auto simp: is_digit_def is_name_char_def Let_def)

lemma name_of_decomp:
  assumes "name_of t = Some (c, r)"
  shows "\<exists>n. t = n @ r \<and> n \<noteq> [] \<and> list_all is_name_char n \<and> c = stringPathComponent n
            \<and> (r = [] \<or> \<not> is_name_char (hd r))"
proof -
  let ?n = "takeWhile is_name_char t"
  from assms have ne: "?n \<noteq> []" and c: "c = stringPathComponent ?n" and r: "r = dropWhile is_name_char t"
    by (auto simp: name_of_def Let_def split: if_splits)
  have "t = ?n @ r" using r by simp
  moreover have "list_all is_name_char ?n" by (simp add: list_all_iff) (meson set_takeWhileD)
  moreover have "r = [] \<or> \<not> is_name_char (hd r)" using r hd_dropWhile [of is_name_char t] by auto
  ultimately show ?thesis using ne c by blast
qed

lemma property_segment_decomp:
  assumes "property_segment first s = Some (c, r)"
  shows "\<exists>seg. s = seg @ r \<and> seg \<noteq> [] \<and> list_all grammar_char seg \<and> boundary seg r
           \<and> (\<forall>r'. boundary seg r' \<longrightarrow> property_segment first (seg @ r') = Some (c, r'))"
proof -
  from assms obtain x t where s: "s = x # t" by (cases s) (auto simp: property_segment_def)
  show ?thesis
  proof (cases "x = CHR ''.''")
    case True
    with assms s have "name_of t = Some (c, r)" by (simp add: property_segment_def)
    from name_of_decomp [OF this] obtain n where n: "t = n @ r" "n \<noteq> []" "list_all is_name_char n"
      "c = stringPathComponent n" "r = [] \<or> \<not> is_name_char (hd r)" by blast
    have ln: "is_name_char (last (x # n))" using n(2) n(3) by (simp add: list_all_iff)
    have "\<forall>r'. boundary (x # n) r' \<longrightarrow> property_segment first ((x # n) @ r') = Some (c, r')"
    proof (intro allI impI)
      fix r' assume "boundary (x # n) r'"
      with ln have "r' = [] \<or> \<not> is_name_char (hd r')" by (simp add: boundary_def)
      from name_of_render [OF n(2) n(3) this] True n(4)
      show "property_segment first ((x # n) @ r') = Some (c, r')"
        by (simp add: property_segment_def)
    qed
    moreover have "list_all grammar_char (x # n)"
      using True n(3) by (auto simp: grammar_char_def list_all_iff)
    moreover have "boundary (x # n) r" using n(5) by (simp add: boundary_def)
    ultimately show ?thesis using s n(1) by (intro exI [of _ "x # n"]) simp
  next
    case False
    with assms s have f: first and "name_of s = Some (c, r)"
      by (auto simp: property_segment_def split: if_splits)
    from name_of_decomp [OF this(2)] obtain n where n: "s = n @ r" "n \<noteq> []" "list_all is_name_char n"
      "c = stringPathComponent n" "r = [] \<or> \<not> is_name_char (hd r)" by blast
    from n(2) obtain y n' where yn: "n = y # n'" by (cases n) auto
    with n(3) have "y \<noteq> CHR ''.''" using not_name_specials(1) by auto
    have ln: "is_name_char (last n)" using n(2) n(3) by (simp add: list_all_iff)
    have "\<forall>r'. boundary n r' \<longrightarrow> property_segment first (n @ r') = Some (c, r')"
    proof (intro allI impI)
      fix r' assume "boundary n r'"
      with ln have "r' = [] \<or> \<not> is_name_char (hd r')" by (simp add: boundary_def)
      from name_of_render [OF n(2) n(3) this] n(4) f yn \<open>y \<noteq> CHR ''.''\<close>
      show "property_segment first (n @ r') = Some (c, r')"
        by (simp add: property_segment_def)
    qed
    moreover have "list_all grammar_char n"
      using n(3) by (auto simp: grammar_char_def list_all_iff)
    moreover have "boundary n r" using n(5) by (simp add: boundary_def)
    ultimately show ?thesis using n(1) n(2) by blast
  qed
qed

lemma index_segment_decomp:
  assumes "index_segment s = Some (c, r)"
  shows "\<exists>seg. s = seg @ r \<and> seg \<noteq> [] \<and> list_all grammar_char seg \<and> hd seg = CHR ''[''
           \<and> \<not> is_name_char (last seg) \<and> (\<forall>r'. index_segment (seg @ r') = Some (c, r'))"
proof -
  from assms obtain t where s: "s = CHR ''['' # t"
    by (cases s) (auto simp: index_segment_def split: if_splits)
  let ?ds = "takeWhile is_digit t"
  from assms s have d: "dropWhile is_digit t = CHR '']'' # r" and ne: "?ds \<noteq> []"
    and c: "c = indexPathComponent (parse_nat ?ds)"
    by (auto simp: index_segment_def Let_def split: list.splits if_splits)
  have t: "t = ?ds @ CHR '']'' # r" using d by (metis takeWhile_dropWhile_id)
  have all: "\<And>x. x \<in> set ?ds \<Longrightarrow> is_digit x" by (meson set_takeWhileD)
  let ?seg = "CHR ''['' # ?ds @ [CHR '']'']"
  have "\<forall>r'. index_segment (?seg @ r') = Some (c, r')"
  proof
    fix r'
    have "takeWhile is_digit (?ds @ CHR '']'' # r') = ?ds"
      using all by (simp add: takeWhile_append2 not_digit_close del: takeWhile_eq_Nil_iff)
    moreover have "dropWhile is_digit (?ds @ CHR '']'' # r') = CHR '']'' # r'"
      using all by (simp add: dropWhile_append2 not_digit_close)
    ultimately show "index_segment (?seg @ r') = Some (c, r')"
      using ne c by (simp add: index_segment_def del: takeWhile_eq_Nil_iff)
  qed
  moreover have "list_all grammar_char ?seg"
    using all by (auto simp: list_all_iff grammar_char_def dest: is_digit_name)
  moreover have "s = ?seg @ r" using s t by simp
  moreover have "\<not> is_name_char (last ?seg)" by (simp add: not_name_specials)
  ultimately show ?thesis by (intro exI [of _ ?seg]) simp
qed

lemma property_segment_bracket: "hd s = CHR ''['' \<Longrightarrow> property_segment first s = None"
  by (cases s) (auto simp: property_segment_def name_of_def not_name_specials)

lemma next_segment_decomp:
  assumes "next_segment first s = Some (c, r)"
  shows "\<exists>seg. s = seg @ r \<and> seg \<noteq> [] \<and> list_all grammar_char seg \<and> boundary seg r
           \<and> (\<forall>r'. boundary seg r' \<longrightarrow> next_segment first (seg @ r') = Some (c, r'))"
proof (cases "property_segment first s")
  case (Some a)
  with assms have "property_segment first s = Some (c, r)" by (simp add: next_segment_def)
  from property_segment_decomp [OF this] show ?thesis
    by (auto simp: next_segment_def)
next
  case None
  with assms have "index_segment s = Some (c, r)" by (simp add: next_segment_def)
  from index_segment_decomp [OF this] obtain seg where seg: "s = seg @ r" "seg \<noteq> []"
    "list_all grammar_char seg" "hd seg = CHR ''[''" "\<not> is_name_char (last seg)"
    "\<forall>r'. index_segment (seg @ r') = Some (c, r')"
    by blast
  have "\<And>r'. property_segment first (seg @ r') = None"
    using seg(2) seg(4) by (intro property_segment_bracket) simp
  with seg show ?thesis by (auto simp: next_segment_def boundary_def)
qed

lemma parse_loop_ok_chars:
  "parse_loop first s acc = (p, None) \<Longrightarrow> list_all grammar_char s"
proof (induction first s acc rule: parse_loop.induct)
  case (1 first s acc)
  show ?case
  proof (cases "s = []")
    case True then show ?thesis by simp
  next
    case False
    with "1.prems" obtain c r where ns: "next_segment first s = Some (c, r)"
      and rec: "parse_loop False r (acc @ [c]) = (p, None)"
      by (subst (asm) parse_loop.simps) (auto split: option.splits)
    from "1.IH" [OF False ns refl rec] have "list_all grammar_char r" .
    with next_segment_decomp [OF ns] show ?thesis by auto
  qed
qed

lemma parse_loop_error_prefix:
  "parse_loop first s acc = (p, Some e) \<Longrightarrow>
     \<exists>consumed rest. s = consumed @ rest \<and> rest \<noteq> []
        \<and> next_segment (first \<and> consumed = []) rest = None
        \<and> parse_loop first consumed acc = (p, None)"
proof (induction first s acc rule: parse_loop.induct)
  case (1 first s acc)
  from "1.prems" have ne: "s \<noteq> []" by (subst (asm) parse_loop.simps) (auto split: if_splits)
  show ?case
  proof (cases "next_segment first s")
    case None
    with "1.prems" ne have "p = acc" by (subst (asm) parse_loop.simps) simp
    with None ne show ?thesis
      by (intro exI [of _ "[]"] exI [of _ s]) (simp add: parse_loop.simps)
  next
    case (Some a)
    obtain c r where a: "a = (c, r)" by (cases a)
    with Some have ns: "next_segment first s = Some (c, r)" by simp
    with "1.prems" ne have rec: "parse_loop False r (acc @ [c]) = (p, Some e)"
      by (subst (asm) parse_loop.simps) simp
    from "1.IH" [OF ne ns refl rec] obtain consumed rest where
      cr: "r = consumed @ rest" "rest \<noteq> []" "next_segment False rest = None"
          "parse_loop False consumed (acc @ [c]) = (p, None)" by auto
    from next_segment_decomp [OF ns] obtain seg where seg: "s = seg @ r" "seg \<noteq> []"
      "boundary seg r"
      "\<forall>r'. boundary seg r' \<longrightarrow> next_segment first (seg @ r') = Some (c, r')" by blast
    have "boundary seg consumed" using cr(1) cr(2) seg(3) by (cases consumed) (auto simp: boundary_def)
    with seg(4) have "next_segment first (seg @ consumed) = Some (c, consumed)" by blast
    with seg(2) cr(4) have "parse_loop first (seg @ consumed) acc = (p, None)"
      by (subst parse_loop.simps) simp
    with seg cr show ?thesis
      by (intro exI [of _ "seg @ consumed"] exI [of _ rest]) simp
  qed
qed

lemma parse_loop_stuck:
  "parse_loop first consumed acc = (p, None) \<Longrightarrow> rest \<noteq> [] \<Longrightarrow>
   next_segment (first \<and> consumed = []) rest = None \<Longrightarrow>
   (consumed \<noteq> [] \<and> is_name_char (last consumed) \<longrightarrow> \<not> is_name_char (hd rest)) \<Longrightarrow>
   parse_loop first (consumed @ rest) acc = (p, Some SyntaxError)"
proof (induction first consumed acc rule: parse_loop.induct)
  case (1 first s acc)
  show ?case
  proof (cases "s = []")
    case True
    with "1.prems" show ?thesis by (simp add: parse_loop.simps)
  next
    case False
    with "1.prems"(1) obtain c r where ns: "next_segment first s = Some (c, r)"
      and rec: "parse_loop False r (acc @ [c]) = (p, None)"
      by (subst (asm) parse_loop.simps) (auto split: option.splits)
    from next_segment_decomp [OF ns] obtain seg where seg: "s = seg @ r" "seg \<noteq> []"
      "boundary seg r"
      "\<forall>r'. boundary seg r' \<longrightarrow> next_segment first (seg @ r') = Some (c, r')" by blast
    have b: "boundary seg (r @ rest)"
    proof (cases "r = []")
      case True
      with seg(1) seg(2) "1.prems"(4) show ?thesis by (auto simp: boundary_def)
    next
      case False
      with seg(3) show ?thesis by (auto simp: boundary_def)
    qed
    with seg(4) have "next_segment first (seg @ r @ rest) = Some (c, r @ rest)" by blast
    with seg(1) seg(2) have step: "parse_loop first (s @ rest) acc = parse_loop False (r @ rest) (acc @ [c])"
      by (subst parse_loop.simps) simp
    have p3: "next_segment (False \<and> r = []) rest = None" using "1.prems"(3) False by simp
    have p4: "r \<noteq> [] \<and> is_name_char (last r) \<longrightarrow> \<not> is_name_char (hd rest)"
      using "1.prems"(4) seg(1) by auto
    from "1.IH" [OF False ns refl rec "1.prems"(2) p3 p4] step show ?thesis by simp
  qed
qed

lemma char_of_48: "char_of (48::nat) = CHR ''0''"
  by code_simp

lemma show_nat_0: "show_nat 0 = ''0''"
  by (subst show_nat.simps) (simp add: digit_char_def char_of_48)

section \<open>Properties of the walk\<close>

lemma walk_each_invariant:
  fixes fn :: "Node \<Rightarrow> 's \<Rightarrow> panic + (bool \<times> go_error option) \<times> 's"
  assumes A: "\<And>n st e st'. Q n \<Longrightarrow> I st \<Longrightarrow> walk k D S fn n st = Some (Inr (e, st')) \<Longrightarrow> I st'"
  shows "(\<forall>c. Inr c \<in> set ns \<longrightarrow> Q c) \<Longrightarrow> I st \<Longrightarrow>
         walk_each k D S fn ns st = Some (Inr (e, st')) \<Longrightarrow> I st'"
proof (induction ns arbitrary: st)
  case Nil
  then show ?case by simp
next
  case (Cons x ns)
  show ?case
  proof (cases x)
    case (Inl p)
    with Cons.prems show ?thesis by simp
  next
    case (Inr n)
    with Cons.prems(1) have qn: "Q n" by simp
    from Cons.prems(3) Inr obtain r where w: "walk k D S fn n st = Some r"
      by (auto split: option.splits)
    show ?thesis
    proof (cases r)
      case (Inl p)
      with Cons.prems(3) Inr w show ?thesis by simp
    next
      case r: (Inr y)
      obtain err st1 where y: "y = (err, st1)" by (cases y)
      have i1: "I st1" using A [OF qn Cons.prems(2)] w r y by simp
      show ?thesis
      proof (cases err)
        case None
        with Cons.prems(3) Inr w r y have "walk_each k D S fn ns st1 = Some (Inr (e, st'))" by simp
        with Cons.IH [of st1] Cons.prems(1) i1 show ?thesis by simp
      next
        case (Some a)
        with Cons.prems(3) Inr w r y i1 show ?thesis by simp
      qed
    qed
  qed
qed

lemma walk_invariant:
  fixes fn :: "Node \<Rightarrow> 's \<Rightarrow> panic + (bool \<times> go_error option) \<times> 's"
  assumes fn_step: "\<And>n st r st'. Q n \<Longrightarrow> I st \<Longrightarrow> fn n st = Inr (r, st') \<Longrightarrow> I st'"
    and children_Q: "\<And>n a c. Q n \<Longrightarrow> RawNode n = Some a \<Longrightarrow> Inr c \<in> set (children D S n (S a)) \<Longrightarrow> Q c"
  shows "Q n \<Longrightarrow> I st \<Longrightarrow> walk k D S fn n st = Some (Inr (e, st')) \<Longrightarrow> I st'"
proof (induction k arbitrary: n st e st')
  case 0
  then show ?case by simp
next
  case (Suc k)
  from Suc.prems(3) obtain x where fx: "fn n st = Inr x"
    by (cases "fn n st") auto
  obtain stop err st1 where x: "x = ((stop, err), st1)" by (cases x) auto
  have i1: "I st1" using fn_step [OF Suc.prems(1) Suc.prems(2)] fx x by simp
  show ?case
  proof (cases "err \<noteq> None \<or> stop")
    case True
    with Suc.prems(3) fx x i1 show ?thesis by (auto split: if_splits)
  next
    case False
    with Suc.prems(3) fx x obtain a where a: "RawNode n = Some a"
      and we: "walk_each k D S fn (children D S n (S a)) st1 = Some (Inr (e, st'))"
      by (auto split: option.splits)
    have cq: "\<forall>c. Inr c \<in> set (children D S n (S a)) \<longrightarrow> Q c"
      using children_Q [OF Suc.prems(1) a] by blast
    show ?thesis
      by (rule walk_each_invariant [where Q = Q and I = I, OF Suc.IH cq i1 we])
  qed
qed

lemma walk_each_no_error:
  fixes fn :: "Node \<Rightarrow> 's \<Rightarrow> panic + (bool \<times> go_error option) \<times> 's"
  assumes A: "\<And>n st e st'. walk k D S fn n st = Some (Inr (e, st')) \<Longrightarrow> e = None"
  shows "walk_each k D S fn ns st = Some (Inr (e, st')) \<Longrightarrow> e = None"
proof (induction ns arbitrary: st)
  case Nil
  then show ?case by simp
next
  case (Cons x ns)
  show ?case
  proof (cases x)
    case (Inl p)
    with Cons.prems show ?thesis by simp
  next
    case (Inr n)
    from Cons.prems Inr obtain r where w: "walk k D S fn n st = Some r"
      by (auto split: option.splits)
    show ?thesis
    proof (cases r)
      case (Inl p)
      with Cons.prems Inr w show ?thesis by simp
    next
      case r: (Inr y)
      obtain err st1 where y: "y = (err, st1)" by (cases y)
      have "err = None" using A w r y by simp
      with Cons.prems Inr w r y have "walk_each k D S fn ns st1 = Some (Inr (e, st'))" by simp
      with Cons.IH show ?thesis by simp
    qed
  qed
qed

lemma walk_no_error:
  fixes fn :: "Node \<Rightarrow> 's \<Rightarrow> panic + (bool \<times> go_error option) \<times> 's"
  assumes fn_nil: "\<And>n st stop err st'. fn n st = Inr ((stop, err), st') \<Longrightarrow> err = None"
  shows "walk k D S fn n st = Some (Inr (e, st')) \<Longrightarrow> e = None"
proof (induction k arbitrary: n st e st')
  case 0
  then show ?case by simp
next
  case (Suc k)
  from Suc.prems obtain x where fx: "fn n st = Inr x"
    by (cases "fn n st") auto
  obtain stop err st1 where x: "x = ((stop, err), st1)" by (cases x) auto
  have en: "err = None" using fn_nil fx x by simp
  show ?case
  proof (cases stop)
    case True
    with Suc.prems fx x en show ?thesis by simp
  next
    case False
    with Suc.prems fx x en obtain a where
      we: "walk_each k D S fn (children D S n (S a)) st1 = Some (Inr (e, st'))"
      by (auto split: option.splits)
    show ?thesis by (rule walk_each_no_error [OF Suc.IH we])
  qed
qed

lemma visit_body_nil_error:
  "visit_body D S n c st = Inr ((stop, err), st') \<Longrightarrow> err = None"
  unfolding visit_body_def
  by (auto split: if_splits sum.splits bool.splits)

lemma visit_nil_error: "visit D S n st = Inr ((stop, err), st') \<Longrightarrow> err = None"
  unfolding visit_def
  by (auto split: prod.splits sum.splits dest: visit_body_nil_error)

section \<open>Sections only grow\<close>

lemma add_properties_append: "add_properties qs (add_properties ps s) = add_properties (ps @ qs) s"
  by (simp add: add_properties_def)

lemma add_properties_Nil: "add_properties [] s = s"
  by (simp add: add_properties_def)

lemma grows_refl: "Document.Sections d \<noteq> [] \<Longrightarrow> grows d d"
  unfolding grows_def
  by (auto intro!: exI [of _ "[]"] simp: add_properties_Nil)

lemma appends_refl: "Document.Sections d \<noteq> [] \<Longrightarrow> appends d d"
  unfolding appends_def
  by (auto intro!: exI [of _ "[]"] simp: add_properties_Nil)

lemma appends_grows: "appends d d' \<Longrightarrow> grows d d'"
proof -
  assume "appends d d'"
  then obtain ps where "Document.Sections d \<noteq> []"
    "Document.Sections d' = butlast (Document.Sections d) @ [add_properties ps (last (Document.Sections d))] @ []"
    unfolding appends_def by auto
  then show ?thesis unfolding grows_def by blast
qed

lemma grows_nonempty: "grows d d' \<Longrightarrow> Document.Sections d' \<noteq> []"
  unfolding grows_def by auto

lemma appends_trans:
  assumes "appends d d'" "appends d' d''"
  shows "appends d d''"
proof -
  from assms(1) obtain ps where ne: "Document.Sections d \<noteq> []"
    and 1: "Document.Sections d' = butlast (Document.Sections d) @ [add_properties ps (last (Document.Sections d))]"
    unfolding appends_def by auto
  from assms(2) obtain qs where
    2: "Document.Sections d'' = butlast (Document.Sections d') @ [add_properties qs (last (Document.Sections d'))]"
    unfolding appends_def by auto
  have "Document.Sections d'' = butlast (Document.Sections d) @ [add_properties (ps @ qs) (last (Document.Sections d))]"
    unfolding 2 1 by (simp add: add_properties_append)
  with ne show ?thesis unfolding appends_def by blast
qed

lemma grows_trans:
  assumes "grows d d'" "grows d' d''"
  shows "grows d d''"
proof -
  from assms(1) obtain ps new where ne: "Document.Sections d \<noteq> []"
    and 1: "Document.Sections d' = butlast (Document.Sections d) @ [add_properties ps (last (Document.Sections d))] @ new"
    unfolding grows_def by auto
  from assms(2) obtain qs new' where
    2: "Document.Sections d'' = butlast (Document.Sections d') @ [add_properties qs (last (Document.Sections d'))] @ new'"
    unfolding grows_def by auto
  show ?thesis
  proof (cases "new = []")
    case True
    have "Document.Sections d'' = butlast (Document.Sections d) @ [add_properties (ps @ qs) (last (Document.Sections d))] @ new'"
      unfolding 2 1 using True by (simp add: add_properties_append)
    with ne show ?thesis unfolding grows_def by blast
  next
    case False
    have "Document.Sections d'' = butlast (Document.Sections d) @ [add_properties ps (last (Document.Sections d))]
        @ (butlast new @ [add_properties qs (last new)] @ new')"
      unfolding 2 1 using False by (simp add: butlast_append)
    with ne show ?thesis unfolding grows_def by blast
  qed
qed

lemma appendProperty_appends:
  "Document.Sections d \<noteq> [] \<Longrightarrow> \<exists>d'. appendProperty d p = Inr d' \<and> appends d d'"
  unfolding appendProperty_def appends_def
  by (auto intro!: exI [of _ "[p]"] simp: add_properties_def)

lemma appendProperty_Inr:
  "appendProperty d p = Inr d' \<Longrightarrow> appends d d'"
  using appendProperty_appends [of d p]
  by (cases "Document.Sections d = []") (auto simp: appendProperty_def)

lemma new_section_grows:
  "Document.Sections d \<noteq> [] \<Longrightarrow> grows d (d\<lparr>Document.Sections := Document.Sections d @ [s]\<rparr>)"
  unfolding grows_def
  by (auto intro!: exI [of _ "[]"] exI [of _ "[s]"] simp: add_properties_Nil)

lemma parseComments_grows:
  "Document.Sections (document st) \<noteq> [] \<Longrightarrow>
   \<exists>st'. parseCommentsOntoDocument D path st cs = Inr st' \<and> grows (document st) (document st')
      \<and> (no_section cs \<longrightarrow> appends (document st) (document st'))"
proof (induction cs arbitrary: st)
  case Nil
  then show ?case by (simp add: grows_refl appends_refl)
next
  case (Cons c cs)
  let ?d = "document st"
  show ?case
  proof (cases "GetBool (Tags c) TagSection")
    case True
    let ?st1 = "st\<lparr>document := ?d\<lparr>Document.Sections := Document.Sections ?d @
              [\<lparr>Section.Name = GetString (Tags c) TagSection,
                Section.Description = Comment_String D c, Properties = []\<rparr>]\<rparr>\<rparr>"
    have g1: "grows ?d (document ?st1)" using new_section_grows [OF Cons.prems] by simp
    have ne1: "Document.Sections (document ?st1) \<noteq> []" by simp
    from Cons.IH [OF ne1] obtain st' where
      r: "parseCommentsOntoDocument D path ?st1 cs = Inr st'" and g: "grows (document ?st1) (document st')"
      by blast
    have "parseCommentsOntoDocument D path st (c # cs) = Inr st'" using True r by simp
    moreover have "grows ?d (document st')" using grows_trans [OF g1 g] .
    moreover have "\<not> no_section (c # cs)" using True by (simp add: no_section_def)
    ultimately show ?thesis by blast
  next
    case nosec: False
    show ?thesis
    proof (cases "GetBool (Tags c) TagProperty")
      case False
      from Cons.IH [OF Cons.prems] obtain st' where
        r: "parseCommentsOntoDocument D path st cs = Inr st'" and g: "grows ?d (document st')"
        and a: "no_section cs \<longrightarrow> appends ?d (document st')" by blast
      have "parseCommentsOntoDocument D path st (c # cs) = Inr st'" using nosec False r by simp
      with g a show ?thesis by (auto simp: no_section_def)
    next
      case True
      obtain pn S' c' where ip: "inferProperty D path c = (pn, S', c')" by (cases "inferProperty D path c")
      let ?name = "if GetString (Tags c') TagProperty = [] then Path_String (Path pn) else GetString (Tags c') TagProperty"
      show ?thesis
      proof (cases "?name = []")
        case empty: True
        let ?st1 = "st\<lparr>logged := logged st @ [''could not calculate undefined property name'']\<rparr>"
        have ne1: "Document.Sections (document ?st1) \<noteq> []" using Cons.prems by simp
        from Cons.IH [OF ne1] obtain st' where
          r: "parseCommentsOntoDocument D path ?st1 cs = Inr st'" and g: "grows ?d (document st')"
          and a: "no_section cs \<longrightarrow> appends ?d (document st')" by auto
        have "parseCommentsOntoDocument D path st (c # cs) = Inr st'"
          using nosec True ip empty r by (simp add: Let_def)
        with g a show ?thesis by (auto simp: no_section_def)
      next
        case nonempty: False
        let ?p = "\<lparr>Property.Name = ?name, Property.Description = c',
                  Property.Type = getTypeOf D S' pn c', Default = ''undefined''\<rparr>"
        from appendProperty_appends [OF Cons.prems, of ?p] obtain d1 where
          ap: "appendProperty ?d ?p = Inr d1" and a1: "appends ?d d1" by blast
        let ?st1 = "st\<lparr>document := d1\<rparr>"
        have ne1: "Document.Sections (document ?st1) \<noteq> []"
          using grows_nonempty [OF appends_grows [OF a1]] by simp
        from Cons.IH [OF ne1] obtain st' where
          r: "parseCommentsOntoDocument D path ?st1 cs = Inr st'" and g: "grows d1 (document st')"
          and a: "no_section cs \<longrightarrow> appends d1 (document st')" by auto
        have "parseCommentsOntoDocument D path st (c # cs) = Inr st'"
          using nosec True ip nonempty ap r by (simp add: Let_def)
        moreover have "grows ?d (document st')" using grows_trans [OF appends_grows [OF a1] g] .
        moreover have "no_section (c # cs) \<longrightarrow> appends ?d (document st')"
          using a appends_trans [OF a1] by (auto simp: no_section_def)
        ultimately show ?thesis by blast
      qed
    qed
  qed
qed

lemma visit_body_grows:
  assumes "Document.Sections (document st) \<noteq> []" "visit_body D S n c st = Inr (r, st')"
  shows "grows (document st) (document st')
     \<and> (\<not> GetBool (Tags c) TagSection \<longrightarrow> appends (document st) (document st'))"
proof (cases "GetBool (Tags c) TagIgnore")
  case True
  with assms show ?thesis by (simp add: visit_body_def grows_refl appends_refl)
next
  case False
  with assms(2) obtain b where ie: "isEndNode S n c = Inr b"
    by (cases "isEndNode S n c") (auto simp: visit_body_def)
  show ?thesis
  proof (cases b)
    case True
    with assms(2) False ie obtain def doc where
      "appendProperty (document st)
         \<lparr>Property.Name = Path_String (Path n), Property.Description = c,
          Property.Type = getTypeOf D S n c, Default = def\<rparr> = Inr doc" and "st' = st\<lparr>document := doc\<rparr>"
      by (auto simp: visit_body_def split: sum.splits)
    then have "appends (document st) (document st')" by (auto dest: appendProperty_Inr)
    then show ?thesis by (simp add: appends_grows)
  next
    case nb: False
    from parseComments_grows [OF assms(1), of D "Parent (Path n)" "[c]"] obtain st1 where
      r: "parseCommentsOntoDocument D (Parent (Path n)) st [c] = Inr st1"
      and g: "grows (document st) (document st1)"
      and a: "no_section [c] \<longrightarrow> appends (document st) (document st1)" by blast
    from assms(2) False ie nb r have "st' = st1" by (simp add: visit_body_def)
    with g a show ?thesis by (simp add: no_section_def)
  qed
qed

lemma Pop_no_section:
  "Pop cs = (c, rest) \<Longrightarrow> no_section cs \<Longrightarrow> \<not> GetBool (Tags c) TagSection \<and> no_section rest"
  by (cases cs) (auto simp: Pop_def no_section_def GetBool_def zero_Comment_def)

lemma visit_grows:
  assumes ne: "Document.Sections (document st) \<noteq> []" and v: "visit D S n st = Inr (r, st')"
  shows "grows (document st) (document st')
     \<and> (no_section (HeadComments n) \<and> no_section (Node.FootComment n) \<longrightarrow> appends (document st) (document st'))"
proof -
  obtain c hs where pop: "Pop (HeadComments n) = (c, hs)" by (cases "Pop (HeadComments n)")
  let ?path = "Parent (Path n)"
  from parseComments_grows [OF ne, of D ?path hs] obtain st1 where
    r1: "parseCommentsOntoDocument D ?path st hs = Inr st1"
    and g1: "grows (document st) (document st1)"
    and a1: "no_section hs \<longrightarrow> appends (document st) (document st1)" by blast
  from v pop r1 obtain st2 where
    b: "visit_body D S (n\<lparr>HeadComments := hs\<rparr>) c st1 = Inr (r, st2)"
    and r3: "parseCommentsOntoDocument D ?path st2 (Node.FootComment n) = Inr st'"
    by (auto simp: visit_def split: sum.splits)
  have ne1: "Document.Sections (document st1) \<noteq> []" using grows_nonempty [OF g1] .
  from visit_body_grows [OF ne1 b] have g2: "grows (document st1) (document st2)"
    and a2: "\<not> GetBool (Tags c) TagSection \<longrightarrow> appends (document st1) (document st2)" by auto
  have ne2: "Document.Sections (document st2) \<noteq> []" using grows_nonempty [OF g2] .
  from parseComments_grows [OF ne2, of D ?path "Node.FootComment n"] r3
  have g3: "grows (document st2) (document st')"
    and a3: "no_section (Node.FootComment n) \<longrightarrow> appends (document st2) (document st')" by auto
  have "grows (document st) (document st')"
    using grows_trans [OF g1 grows_trans [OF g2 g3]] .
  moreover have "appends (document st) (document st')"
    if "no_section (HeadComments n)" "no_section (Node.FootComment n)"
  proof -
    from Pop_no_section [OF pop that(1)] a1 a2 a3 that(2)
    show ?thesis by (blast intro: appends_trans)
  qed
  ultimately show ?thesis by blast
qed

lemma sequence_children_comments:
  "Inr c \<in> set (sequence_children D root raw i xs) \<Longrightarrow>
   HeadComments c = ParseComment D (HeadComment raw) \<and>
   Node.FootComment c = ParseComment D (yaml_Node.FootComment raw)"
  by (induction xs arbitrary: i) auto

lemma mapping_children_comments:
  "Inr c \<in> set (mapping_children D S root xs) \<Longrightarrow>
   \<exists>b. HeadComments c = ParseComment D (HeadComment (S b)) \<and>
       Node.FootComment c = ParseComment D (yaml_Node.FootComment (S b))"
  by (induction D S root xs rule: mapping_children.induct) auto

lemma document_children_comments:
  "Inr c \<in> set (document_children D S root xs) \<Longrightarrow>
   \<exists>b. HeadComments c = ParseComment D (HeadComment (S b)) \<and>
       Node.FootComment c = ParseComment D (yaml_Node.FootComment (S b))"
  by (induction xs) auto

lemma children_comments:
  "Inr c \<in> set (children D S root (S a)) \<Longrightarrow>
   \<exists>b. HeadComments c = ParseComment D (HeadComment (S b)) \<and>
       Node.FootComment c = ParseComment D (yaml_Node.FootComment (S b))"
  unfolding children_def
  by (cases "Kind (S a)")
     (auto dest: sequence_children_comments mapping_children_comments document_children_comments)

lemma walk_grows:
  assumes "walk k D S (visit D S) n st = Some (Inr (e, st'))" "Document.Sections (document st) \<noteq> []"
  shows "grows (document st) (document st')"
proof -
  let ?I = "\<lambda>s. grows (document st) (document s)"
  have step: "\<And>n s r s'. True \<Longrightarrow> ?I s \<Longrightarrow> visit D S n s = Inr (r, s') \<Longrightarrow> ?I s'"
    using visit_grows grows_trans grows_nonempty by blast
  show ?thesis
    by (rule walk_invariant [where Q = "\<lambda>n. True" and I = ?I, OF step _ _ _ assms(1)])
       (simp_all add: grows_refl assms(2))
qed

lemma walk_appends:
  assumes "walk k D S (visit D S) n st = Some (Inr (e, st'))" "Document.Sections (document st) \<noteq> []"
    and "no_section_directives D S" "no_section (HeadComments n)" "no_section (Node.FootComment n)"
  shows "appends (document st) (document st')"
proof -
  let ?I = "\<lambda>s. appends (document st) (document s)"
  let ?Q = "\<lambda>n. no_section (HeadComments n) \<and> no_section (Node.FootComment n)"
  have step: "\<And>n s r s'. ?Q n \<Longrightarrow> ?I s \<Longrightarrow> visit D S n s = Inr (r, s') \<Longrightarrow> ?I s'"
  proof -
    fix n s r s'
    assume q: "?Q n" and i: "?I s" and v: "visit D S n s = Inr (r, s')"
    have "Document.Sections (document s) \<noteq> []" using grows_nonempty [OF appends_grows [OF i]] .
    from visit_grows [OF this v] q have "appends (document s) (document s')" by blast
    with i show "?I s'" by (rule appends_trans)
  qed
  have ch: "\<And>n a c. ?Q n \<Longrightarrow> RawNode n = Some a \<Longrightarrow> Inr c \<in> set (children D S n (S a)) \<Longrightarrow> ?Q c"
    using assms(3) by (auto simp: no_section_directives_def dest!: children_comments)
  show ?thesis
    by (rule walk_invariant [where Q = ?Q and I = ?I, OF step ch _ _ assms(1)])
       (simp_all add: appends_refl assms)
qed

section \<open>Inference from the code block\<close>

lemma find_codeIdx_none:
  "\<forall>s \<in> set secs. CommentSection.Type s \<noteq> CommentTypeCode \<Longrightarrow> find_codeIdx i secs acc = acc"
  by (induction secs arbitrary: i acc) auto

lemma find_codeIdx_last:
  "CommentSection.Type code = CommentTypeCode \<Longrightarrow>
   \<forall>s \<in> set post. CommentSection.Type s \<noteq> CommentTypeCode \<Longrightarrow>
   find_codeIdx i (pre @ code # post) acc = int (i + length pre)"
  by (induction pre arbitrary: i acc) (auto simp: find_codeIdx_none)

lemma remove_section_before: "j < i \<Longrightarrow> remove_section i (int j) xs = xs"
  by (induction xs arbitrary: i) auto

lemma remove_section_at:
  "remove_section i (int (i + length pre)) (pre @ code # post) = pre @ post"
proof (induction pre arbitrary: i)
  case Nil
  then show ?case by (simp add: remove_section_before)
next
  case (Cons x pre)
  have "int (i + length (x # pre)) = int (Suc i + length pre)" by simp
  with Cons [of "Suc i"] show ?case by simp
qed

lemma inferProperty_last_code:
  assumes "Comment.Sections c = pre @ code # post"
    and "CommentSection.Type code = CommentTypeCode"
    and "\<forall>s \<in> set post. CommentSection.Type s \<noteq> CommentTypeCode"
    and "Unmarshal D (Section_String D code) = (node, S')"
  shows "inferProperty D path c =
     (if single_key node S' then
        (\<lparr>Path = WithProperty path (Value (S' (Content (S' (Content node ! 0)) ! 0))),
          HeadComments = [c], Node.FootComment = [],
          RawNode = Some (Content (S' (Content node ! 0)) ! 1)\<rparr>,
         S',
         \<lparr>Tags = Tags c, Comment.Sections = pre @ post\<rparr>)
      else (\<lparr>Path = [], HeadComments = [c], Node.FootComment = [], RawNode = None\<rparr>, S', c))"
proof -
  have idx: "find_codeIdx 0 (Comment.Sections c) (- 1) = int (length pre)"
    using find_codeIdx_last [OF assms(2) assms(3), of 0 pre "- 1"] assms(1) by simp
  have rm: "remove_section 0 (int (length pre)) (Comment.Sections c) = pre @ post"
    using remove_section_at [of 0 pre code post] assms(1) by simp
  have nth: "Comment.Sections c ! length pre = code" using assms(1) by simp
  show ?thesis
    unfolding inferProperty_def Let_def idx
    by (simp add: nth assms(4) rm single_key_def)
qed

lemma inferProperty_no_code:
  assumes "\<forall>s \<in> set (Comment.Sections c). CommentSection.Type s \<noteq> CommentTypeCode"
  shows "inferProperty D path c =
     (\<lparr>Path = [], HeadComments = [c], Node.FootComment = [], RawNode = None\<rparr>,
      (\<lambda>a. zero_yaml_Node), c)"
  unfolding inferProperty_def Let_def find_codeIdx_none [OF assms] by simp

lemma inferProperty_Tags: "inferProperty D path c = (pn, S', c') \<Longrightarrow> Tags c' = Tags c"
  unfolding inferProperty_def Let_def
  by (auto split: if_splits prod.splits)

section \<open>Properties of the callback\<close>

lemmas tag_defs = TagSection_def TagIgnore_def TagType_def TagDefault_def TagProperty_def

lemma parseComments_plain:
  "list_all (\<lambda>c. \<not> GetBool (Tags c) TagSection \<and> \<not> GetBool (Tags c) TagProperty) cs \<Longrightarrow>
   parseCommentsOntoDocument D path st cs = Inr st"
  by (induction cs) auto

lemma parseComments_property:
  assumes "\<not> GetBool (Tags c) TagSection" "GetBool (Tags c) TagProperty"
    and "inferProperty D path c = (pn, S', c')"
  shows "parseCommentsOntoDocument D path st [c] =
     (let name = (if GetString (Tags c) TagProperty \<noteq> [] then GetString (Tags c) TagProperty
                  else Path_String (Path pn))
      in if name = [] then Inr (st\<lparr>logged := logged st @ [''could not calculate undefined property name'']\<rparr>)
         else case appendProperty (document st)
                     \<lparr>Property.Name = name, Property.Description = c',
                      Property.Type = getTypeOf D S' pn c', Default = ''undefined''\<rparr> of
                Inl e \<Rightarrow> Inl e
              | Inr doc \<Rightarrow> Inr (st\<lparr>document := doc\<rparr>))"
  using assms inferProperty_Tags [OF assms(3)]
  by (auto simp: Let_def split: sum.splits)

lemma isEndNode_HeadComments: "isEndNode S (n\<lparr>HeadComments := hs\<rparr>) c = isEndNode S n c"
  by (simp add: isEndNode_def)

lemma visit_body_end_node:
  assumes "\<not> GetBool (Tags c) TagIgnore" "isEndNode S n c = Inr True" "RawNode n = Some a"
  shows "visit_body D S n c st =
     (case appendProperty (document st)
             \<lparr>Property.Name = Path_String (Path n), Property.Description = c,
              Property.Type = getTypeOf D S n c,
              Default = (if GetString (Tags c) TagDefault \<noteq> [] then GetString (Tags c) TagDefault
                         else TrimSpace D (Reencode D S (S a)))\<rparr> of
        Inl e \<Rightarrow> Inl e
      | Inr doc \<Rightarrow> Inr ((True, None), st\<lparr>document := doc\<rparr>))"
  using assms by (simp add: visit_body_def getDefaultValue_def Let_def)

lemma visit_body_stop_flag:
  assumes "GetBool (Tags c) TagIgnore \<or> isEndNode S n c = Inr True"
    and "visit_body D S n c st = Inr ((stop, err), st')"
  shows "stop \<and> err = None"
  using assms by (auto simp: visit_body_def split: if_splits sum.splits)

lemma visit_stop_flag:
  assumes "Pop (HeadComments n) = (c, hs)"
    and "GetBool (Tags c) TagIgnore \<or> isEndNode S n c = Inr True"
    and "visit D S n st = Inr ((stop, err), st')"
  shows "stop \<and> err = None"
proof -
  from assms(1) assms(3) obtain s1 s2 where
    "visit_body D S (n\<lparr>HeadComments := hs\<rparr>) c s1 = Inr ((stop, err), s2)"
    by (auto simp: visit_def split: sum.splits)
  with assms(2) show ?thesis
    using visit_body_stop_flag [of c S "n\<lparr>HeadComments := hs\<rparr>" D s1 stop err s2]
    by (simp add: isEndNode_HeadComments)
qed

lemma walk_stop:
  assumes "\<And>stop err st'. fn n st = Inr ((stop, err), st') \<Longrightarrow> stop \<and> err = None"
  shows "walk (Suc k) D S fn n st =
     (case fn n st of Inl e \<Rightarrow> Some (Inl e) | Inr (r, st') \<Rightarrow> Some (Inr (None, st')))"
proof (cases "fn n st")
  case (Inl e)
  then show ?thesis by simp
next
  case (Inr x)
  obtain stop err st' where x: "x = ((stop, err), st')" by (cases x) auto
  with assms Inr have "stop \<and> err = None" by simp
  with Inr x show ?thesis by simp
qed

lemma visit_ignored:
  assumes "Pop (HeadComments n) = (c, hs)" "GetBool (Tags c) TagIgnore"
  shows "visit D S n st =
     (case parseCommentsOntoDocument D (Parent (Path n)) st hs of
        Inl e \<Rightarrow> Inl e
      | Inr st1 \<Rightarrow>
          (case parseCommentsOntoDocument D (Parent (Path n)) st1 (Node.FootComment n) of
             Inl e \<Rightarrow> Inl e
           | Inr st2 \<Rightarrow> Inr ((True, None), st2)))"
  using assms by (simp add: visit_def visit_body_def split: sum.splits)

lemma sequence_children_map:
  "sequence_children D root raw i xs =
     map (\<lambda>(j, node). Inr \<lparr>Path = WithIndex (Path root) j,
            HeadComments = ParseComment D (HeadComment raw),
            Node.FootComment = ParseComment D (yaml_Node.FootComment raw),
            RawNode = Some node\<rparr>) (enumerate i xs)"
  by (induction xs arbitrary: i) auto

lemma mapping_children_map:
  "mapping_children D S root (concat (map (\<lambda>(keyNode, valueNode). [keyNode, valueNode]) kvs)) =
     map (\<lambda>(keyNode, valueNode). Inr \<lparr>Path = WithProperty (Path root) (Value (S keyNode)),
            HeadComments = ParseComment D (HeadComment (S keyNode)),
            Node.FootComment = ParseComment D (yaml_Node.FootComment (S keyNode)),
            RawNode = Some valueNode\<rparr>) kvs"
  by (induction kvs) auto

section \<open>The document holds what the walk discovers\<close>

lemma appendProperty_properties:
  "appendProperty d p = Inr d' \<Longrightarrow> document_properties d' = document_properties d @ [p]"
proof -
  assume a: "appendProperty d p = Inr d'"
  then have ne: "Document.Sections d \<noteq> []" by (auto simp: appendProperty_def split: if_splits)
  then have split: "Document.Sections d = butlast (Document.Sections d) @ [last (Document.Sections d)]"
    by simp
  from a ne have "Document.Sections d' = butlast (Document.Sections d) @
      [(last (Document.Sections d))\<lparr>Properties := Properties (last (Document.Sections d)) @ [p]\<rparr>]"
    by (auto simp: appendProperty_def)
  then have "document_properties d' =
      concat (map Properties (butlast (Document.Sections d))) @ Properties (last (Document.Sections d)) @ [p]"
    by (simp add: document_properties_def)
  also have "\<dots> = concat (map Properties (butlast (Document.Sections d) @ [last (Document.Sections d)])) @ [p]"
    by simp
  finally show ?thesis using split by (simp add: document_properties_def)
qed

lemma parseComments_properties:
  "parseCommentsOntoDocument D path st cs = Inr st' \<Longrightarrow>
   document_properties (document st') = document_properties (document st) @ synthetic_properties D path cs"
proof (induction cs arbitrary: st)
  case Nil
  then show ?case by (simp add: synthetic_properties_def)
next
  case (Cons c cs)
  have sp: "synthetic_properties D path (c # cs) = synthetic_property D path c @ synthetic_properties D path cs"
    by (simp add: synthetic_properties_def)
  show ?case
  proof (cases "GetBool (Tags c) TagSection")
    case True
    let ?st1 = "st\<lparr>document := (document st)\<lparr>Document.Sections := Document.Sections (document st) @
              [\<lparr>Section.Name = GetString (Tags c) TagSection,
                Section.Description = Comment_String D c, Properties = []\<rparr>]\<rparr>\<rparr>"
    from Cons.prems True have "parseCommentsOntoDocument D path ?st1 cs = Inr st'" by simp
    from Cons.IH [OF this] have "document_properties (document st') =
        document_properties (document ?st1) @ synthetic_properties D path cs" .
    moreover have "document_properties (document ?st1) = document_properties (document st)"
      by (simp add: document_properties_def)
    moreover have "synthetic_property D path c = []" using True by (simp add: synthetic_property_def)
    ultimately show ?thesis using sp by simp
  next
    case nosec: False
    show ?thesis
    proof (cases "GetBool (Tags c) TagProperty")
      case False
      with Cons.prems nosec have "parseCommentsOntoDocument D path st cs = Inr st'" by simp
      from Cons.IH [OF this] nosec False sp show ?thesis by (simp add: synthetic_property_def)
    next
      case True
      obtain pn S' c' where ip: "inferProperty D path c = (pn, S', c')" by (cases "inferProperty D path c")
      have tg: "Tags c' = Tags c" using inferProperty_Tags [OF ip] .
      let ?name = "if GetString (Tags c) TagProperty \<noteq> [] then GetString (Tags c) TagProperty
                   else Path_String (Path pn)"
      show ?thesis
      proof (cases "?name = []")
        case empty: True
        let ?st1 = "st\<lparr>logged := logged st @ [''could not calculate undefined property name'']\<rparr>"
        from Cons.prems nosec True ip tg empty have "parseCommentsOntoDocument D path ?st1 cs = Inr st'"
          by (simp add: Let_def split: if_splits)
        from Cons.IH [OF this] have "document_properties (document st') =
            document_properties (document st) @ synthetic_properties D path cs" by simp
        moreover have "synthetic_property D path c = []"
          using nosec True ip empty by (simp add: synthetic_property_def Let_def)
        ultimately show ?thesis using sp by simp
      next
        case nonempty: False
        let ?p = "\<lparr>Property.Name = ?name, Property.Description = c',
                  Property.Type = getTypeOf D S' pn c', Default = ''undefined''\<rparr>"
        from Cons.prems nosec True ip tg nonempty obtain d1 where
          ap: "appendProperty (document st) ?p = Inr d1"
          and r: "parseCommentsOntoDocument D path (st\<lparr>document := d1\<rparr>) cs = Inr st'"
          by (auto simp: Let_def split: if_splits sum.splits)
        from Cons.IH [OF r] have "document_properties (document st') =
            document_properties d1 @ synthetic_properties D path cs" by simp
        moreover have "document_properties d1 = document_properties (document st) @ [?p]"
          using appendProperty_properties [OF ap] .
        moreover have "synthetic_property D path c = [?p]"
          using nosec True ip nonempty by (simp add: synthetic_property_def Let_def)
        ultimately show ?thesis using sp by simp
      qed
    qed
  qed
qed

lemma visit_properties:
  assumes "visit D S n st = Inr ((stop, err), st')"
  shows "document_properties (document st') = document_properties (document st) @ node_properties D S n
     \<and> (stop \<longleftrightarrow> \<not> descends S n)"
proof -
  obtain c hs where pop: "Pop (HeadComments n) = (c, hs)" by (cases "Pop (HeadComments n)")
  let ?path = "Parent (Path n)"
  from assms pop obtain st1 st2 where
    r1: "parseCommentsOntoDocument D ?path st hs = Inr st1"
    and b: "visit_body D S (n\<lparr>HeadComments := hs\<rparr>) c st1 = Inr ((stop, err), st2)"
    and r3: "parseCommentsOntoDocument D ?path st2 (Node.FootComment n) = Inr st'"
    by (auto simp: visit_def split: sum.splits)
  note p1 = parseComments_properties [OF r1]
  note p3 = parseComments_properties [OF r3]
  let ?mid = "if GetBool (Tags c) TagIgnore then []
             else case RawNode n of
                    None \<Rightarrow> []
                  | Some a \<Rightarrow>
                      if isEndNode S n c = Inr True then [end_node_property D S n c a]
                      else synthetic_properties D ?path [c]"
  have mid: "document_properties (document st2) = document_properties (document st1) @ ?mid
      \<and> (stop \<longleftrightarrow> \<not> (\<not> GetBool (Tags c) TagIgnore \<and> isEndNode S n c = Inr False))"
  proof (cases "GetBool (Tags c) TagIgnore")
    case True
    with b show ?thesis by (simp add: visit_body_def)
  next
    case False
    with b obtain e where ie: "isEndNode S n c = Inr e"
      by (cases "isEndNode S n c") (auto simp: visit_body_def isEndNode_HeadComments)
    then obtain a where a: "RawNode n = Some a" by (auto simp: isEndNode_def split: option.splits)
    show ?thesis
    proof (cases e)
      case True
      with b False ie a obtain doc where
        ap: "appendProperty (document st1) (end_node_property D S (n\<lparr>HeadComments := hs\<rparr>) c a) = Inr doc"
        and s2: "st2 = st1\<lparr>document := doc\<rparr>" and stop
        by (auto simp: visit_body_def isEndNode_HeadComments getDefaultValue_def end_node_property_def
            Let_def split: sum.splits if_splits)
      have "end_node_property D S (n\<lparr>HeadComments := hs\<rparr>) c a = end_node_property D S n c a"
        by (simp add: end_node_property_def getTypeOf_def Let_def)
      with appendProperty_properties [OF ap] s2 False ie True a \<open>stop\<close> show ?thesis by simp
    next
      case nb: False
      with b False ie obtain
        r2: "parseCommentsOntoDocument D ?path st1 [c] = Inr st2" and "\<not> stop"
        by (auto simp: visit_body_def isEndNode_HeadComments split: sum.splits)
      from parseComments_properties [OF r2] False ie nb a \<open>\<not> stop\<close> show ?thesis by simp
    qed
  qed
  from p1 p3 mid pop show ?thesis by (simp add: node_properties_def descends_def)
qed

lemma walk_each_properties:
  assumes A: "\<And>n st e st'. walk k D S (visit D S) n st = Some (Inr (e, st')) \<Longrightarrow>
      Document.Sections (document st) \<noteq> [] \<Longrightarrow>
      document_properties (document st') = document_properties (document st) @ discovered k D S n"
  shows "walk_each k D S (visit D S) ns st = Some (Inr (e, st')) \<Longrightarrow>
     Document.Sections (document st) \<noteq> [] \<Longrightarrow>
     document_properties (document st') =
       document_properties (document st) @ children_discovered k D S ns"
proof (induction ns arbitrary: st)
  case Nil
  then show ?case by (simp add: children_discovered_def)
next
  case (Cons x ns)
  show ?case
  proof (cases x)
    case (Inl p)
    with Cons.prems show ?thesis by simp
  next
    case (Inr n)
    from Cons.prems(1) Inr obtain r where w: "walk k D S (visit D S) n st = Some r"
      by (auto split: option.splits)
    show ?thesis
    proof (cases r)
      case (Inl p)
      with Cons.prems(1) Inr w show ?thesis by simp
    next
      case r: (Inr y)
      obtain err st1 where y: "y = (err, st1)" by (cases y)
      have w1: "walk k D S (visit D S) n st = Some (Inr (err, st1))" using w r y by simp
      have "err = None" using walk_no_error [OF visit_nil_error w1] .
      with Cons.prems(1) Inr w1 have rest: "walk_each k D S (visit D S) ns st1 = Some (Inr (e, st'))"
        by simp
      have ne1: "Document.Sections (document st1) \<noteq> []"
        using grows_nonempty [OF walk_grows [OF w1 Cons.prems(2)]] .
      from A [OF w1 Cons.prems(2)] Cons.IH [OF rest ne1] Inr
      show ?thesis by (simp add: children_discovered_def)
    qed
  qed
qed

lemma walk_properties:
  "walk k D S (visit D S) n st = Some (Inr (e, st')) \<Longrightarrow>
   Document.Sections (document st) \<noteq> [] \<Longrightarrow>
   document_properties (document st') = document_properties (document st) @ discovered k D S n"
proof (induction k arbitrary: n st e st')
  case 0
  then show ?case by simp
next
  case (Suc k)
  from Suc.prems(1) obtain x where fx: "visit D S n st = Inr x"
    by (cases "visit D S n st") auto
  obtain stop err st1 where x: "x = ((stop, err), st1)" by (cases x) auto
  have v: "visit D S n st = Inr ((stop, err), st1)" using fx x by simp
  have en: "err = None" using visit_nil_error [OF v] .
  from visit_properties [OF v] have
    p1: "document_properties (document st1) = document_properties (document st) @ node_properties D S n"
    and sd: "stop \<longleftrightarrow> \<not> descends S n" by auto
  show ?case
  proof (cases stop)
    case True
    with Suc.prems(1) v en have "st' = st1" by simp
    with p1 sd True show ?thesis by simp
  next
    case False
    with Suc.prems(1) v en obtain a where a: "RawNode n = Some a"
      and we: "walk_each k D S (visit D S) (children D S n (S a)) st1 = Some (Inr (e, st'))"
      by (auto split: option.splits)
    have ne1: "Document.Sections (document st1) \<noteq> []"
      using visit_grows [OF Suc.prems(2) v] grows_nonempty by blast
    from walk_each_properties [OF Suc.IH we ne1] p1 sd False a
    show ?thesis by (simp add: children_discovered_def)
  qed
qed

section \<open>The walk returns on a tree of bounded depth\<close>

lemma sequence_children_bounded:
  "list_all (\<lambda>c. bounded k S (Some c)) xs \<Longrightarrow>
   list_all (child_bounded k S) (sequence_children D root raw i xs)"
  by (induction xs arbitrary: i) (auto simp: child_bounded_def)

lemma mapping_children_bounded:
  "list_all (\<lambda>c. bounded k S (Some c)) xs \<Longrightarrow>
   list_all (child_bounded k S) (mapping_children D S root xs)"
  by (induction D S root xs rule: mapping_children.induct) (auto simp: child_bounded_def)

lemma document_children_bounded:
  "list_all (\<lambda>c. bounded k S (Some c)) xs \<Longrightarrow>
   list_all (child_bounded k S) (document_children D S root xs)"
  by (induction xs) (auto simp: child_bounded_def)

lemma children_bounded:
  "bounded (Suc k) S (Some a) \<Longrightarrow> list_all (child_bounded k S) (children D S root (S a))"
  by (cases "Kind (S a)")
     (auto simp: children_def child_bounded_def
        intro: sequence_children_bounded mapping_children_bounded document_children_bounded)

lemma walk_each_returns:
  fixes fn :: "Node \<Rightarrow> 's \<Rightarrow> panic + (bool \<times> go_error option) \<times> 's"
  assumes A: "\<And>n st. bounded k S (RawNode n) \<Longrightarrow> walk k D S fn n st \<noteq> None"
  shows "list_all (child_bounded k S) ns \<Longrightarrow> walk_each k D S fn ns st \<noteq> None"
proof (induction ns arbitrary: st)
  case Nil
  then show ?case by simp
next
  case (Cons x ns)
  show ?case
  proof (cases x)
    case (Inl e)
    then show ?thesis by simp
  next
    case (Inr n)
    with Cons.prems have "bounded k S (RawNode n)" by (simp add: child_bounded_def)
    from A [OF this, of st] obtain r where w: "walk k D S fn n st = Some r" by auto
    from Cons.prems have rest: "list_all (child_bounded k S) ns" by simp
    show ?thesis
      using Inr w Cons.IH [OF rest]
      by (auto split: sum.splits option.splits prod.splits)
  qed
qed

lemma walk_returns:
  fixes fn :: "Node \<Rightarrow> 's \<Rightarrow> panic + (bool \<times> go_error option) \<times> 's"
  shows "bounded k S (RawNode n) \<Longrightarrow> walk k D S fn n st \<noteq> None"
proof (induction k arbitrary: n st)
  case 0
  then show ?case by simp
next
  case (Suc k)
  show ?case
  proof (cases "RawNode n")
    case None
    then show ?thesis by (auto split: sum.splits prod.splits)
  next
    case (Some a)
    with Suc.prems have "list_all (child_bounded k S) (children D S n (S a))"
      using children_bounded by simp
    from walk_each_returns [where fn = fn, OF Suc.IH this]
    show ?thesis using Some by (auto split: sum.splits prod.splits)
  qed
qed

lemma visit_returns:
  assumes ne: "Document.Sections (document st) \<noteq> []" and a: "RawNode n = Some a"
  shows "\<exists>stop st'. visit D S n st = Inr ((stop, None), st')"
proof -
  obtain c hs where pop: "Pop (HeadComments n) = (c, hs)" by (cases "Pop (HeadComments n)")
  let ?path = "Parent (Path n)"
  from parseComments_grows [OF ne, of D ?path hs] obtain st1 where
    r1: "parseCommentsOntoDocument D ?path st hs = Inr st1"
    and g1: "grows (document st) (document st1)" by blast
  have ne1: "Document.Sections (document st1) \<noteq> []" using grows_nonempty [OF g1] .
  have "\<exists>stop st2. visit_body D S (n\<lparr>HeadComments := hs\<rparr>) c st1 = Inr ((stop, None), st2)
      \<and> Document.Sections (document st2) \<noteq> []"
  proof (cases "GetBool (Tags c) TagIgnore")
    case True
    then show ?thesis using ne1 by (auto simp: visit_body_def)
  next
    case False
    from a obtain b where ie: "isEndNode S n c = Inr b" by (simp add: isEndNode_def)
    show ?thesis
    proof (cases b)
      case True
      from appendProperty_appends [OF ne1, of "end_node_property D S n c a"] obtain d1 where
        ap: "appendProperty (document st1) (end_node_property D S n c a) = Inr d1"
        and g: "appends (document st1) d1" by blast
      have "Document.Sections d1 \<noteq> []" using grows_nonempty [OF appends_grows [OF g]] .
      with False ie True a ap show ?thesis
        by (auto simp: visit_body_def isEndNode_HeadComments getDefaultValue_def end_node_property_def
            getTypeOf_def Let_def)
    next
      case nb: False
      from parseComments_grows [OF ne1, of D ?path "[c]"] obtain st2 where
        r2: "parseCommentsOntoDocument D ?path st1 [c] = Inr st2"
        and g2: "grows (document st1) (document st2)" by blast
      from False ie nb r2 grows_nonempty [OF g2] show ?thesis
        by (auto simp: visit_body_def isEndNode_HeadComments)
    qed
  qed
  then obtain stop st2 where
    b: "visit_body D S (n\<lparr>HeadComments := hs\<rparr>) c st1 = Inr ((stop, None), st2)"
    and ne2: "Document.Sections (document st2) \<noteq> []" by blast
  from parseComments_grows [OF ne2, of D ?path "Node.FootComment n"] obtain st3 where
    r3: "parseCommentsOntoDocument D ?path st2 (Node.FootComment n) = Inr st3" by blast
  from pop r1 b r3 show ?thesis by (simp add: visit_def)
qed

lemma sequence_children_well_formed:
  "list_all (\<lambda>c. well_formed k S (Some c)) xs \<Longrightarrow>
   list_all (child_well_formed k S) (sequence_children D root raw i xs)"
  by (induction xs arbitrary: i) (auto simp: child_well_formed_def)

lemma mapping_children_well_formed:
  "even (length xs) \<Longrightarrow> list_all (\<lambda>c. well_formed k S (Some c)) xs \<Longrightarrow>
   list_all (child_well_formed k S) (mapping_children D S root xs)"
  by (induction D S root xs rule: mapping_children.induct) (auto simp: child_well_formed_def)

lemma document_children_well_formed:
  "list_all (\<lambda>c. well_formed k S (Some c)) xs \<Longrightarrow>
   list_all (child_well_formed k S) (document_children D S root xs)"
  by (induction xs) (auto simp: child_well_formed_def)

lemma children_well_formed:
  "well_formed (Suc k) S (Some a) \<Longrightarrow> list_all (child_well_formed k S) (children D S root (S a))"
  by (cases "Kind (S a)")
     (auto simp: children_def child_well_formed_def
        intro: sequence_children_well_formed mapping_children_well_formed document_children_well_formed)

lemma walk_each_completes:
  assumes A: "\<And>n st. well_formed k S (RawNode n) \<Longrightarrow> Document.Sections (document st) \<noteq> [] \<Longrightarrow>
      \<exists>st'. walk k D S (visit D S) n st = Some (Inr (None, st'))"
  shows "list_all (child_well_formed k S) ns \<Longrightarrow> Document.Sections (document st) \<noteq> [] \<Longrightarrow>
     \<exists>st'. walk_each k D S (visit D S) ns st = Some (Inr (None, st'))"
proof (induction ns arbitrary: st)
  case Nil
  then show ?case by simp
next
  case (Cons x ns)
  from Cons.prems(1) obtain n where x: "x = Inr n" and wf: "well_formed k S (RawNode n)"
    by (cases x) (auto simp: child_well_formed_def)
  from A [OF wf Cons.prems(2)] obtain st1 where
    w: "walk k D S (visit D S) n st = Some (Inr (None, st1))" by blast
  have ne1: "Document.Sections (document st1) \<noteq> []"
    using grows_nonempty [OF walk_grows [OF w Cons.prems(2)]] .
  from Cons.prems(1) have "list_all (child_well_formed k S) ns" by simp
  from Cons.IH [OF this ne1] x w show ?case by simp
qed

lemma walk_completes:
  "well_formed k S (RawNode n) \<Longrightarrow> Document.Sections (document st) \<noteq> [] \<Longrightarrow>
   \<exists>st'. walk k D S (visit D S) n st = Some (Inr (None, st'))"
proof (induction k arbitrary: n st)
  case 0
  then show ?case by simp
next
  case (Suc k)
  from Suc.prems(1) obtain a where a: "RawNode n = Some a" by (cases "RawNode n") auto
  from visit_returns [OF Suc.prems(2) a, of D S] obtain stop st1 where
    v: "visit D S n st = Inr ((stop, None), st1)" by blast
  show ?case
  proof (cases stop)
    case True
    with v show ?thesis by simp
  next
    case False
    have ne1: "Document.Sections (document st1) \<noteq> []"
      using visit_grows [OF Suc.prems(2) v] grows_nonempty by blast
    have "list_all (child_well_formed k S) (children D S n (S a))"
      using children_well_formed Suc.prems(1) a by simp
    from walk_each_completes [OF Suc.IH this ne1] v False a show ?thesis by simp
  qed
qed

lemma walk_diverges:
  fixes fn :: "Node \<Rightarrow> 's \<Rightarrow> panic + (bool \<times> go_error option) \<times> 's"
  assumes C: "\<And>n st. n \<in> C \<Longrightarrow> \<exists>st' a c rest. fn n st = Inr ((False, None), st')
      \<and> RawNode n = Some a \<and> children D S n (S a) = Inr c # rest \<and> c \<in> C"
  shows "n \<in> C \<Longrightarrow> walk k D S fn n st = None"
proof (induction k arbitrary: n st)
  case 0
  then show ?case by simp
next
  case (Suc k)
  from C [OF Suc.prems, of st] obtain st' a c rest where
    f: "fn n st = Inr ((False, None), st')" and a: "RawNode n = Some a"
    and ch: "children D S n (S a) = Inr c # rest" and c: "c \<in> C" by blast
  from Suc.IH [OF c, of st'] f a ch show ?case by simp
qed

section \<open>The walk on the cyclic tree\<close>

lemma ParseComment_spec_empty: "ParseComment_spec [] = []"
  by (simp add: ParseComment_spec_def blank_line_def)

lemma zero_no_tags: "GetBool (Tags zero_Comment) t = False"
  by (simp add: GetBool_def zero_Comment_def)

lemma visit_uncommented_container:
  assumes "HeadComments n = []" "Node.FootComment n = []" "RawNode n = Some a"
    "Kind (S a) = AliasNode \<or> (Kind (S a) \<in> {SequenceNode, DocumentNode} \<and> Content (S a) \<noteq> [])"
  shows "visit D S n st = Inr ((False, None), st)"
  using assms
  by (auto simp: visit_def Pop_def visit_body_def isEndNode_def zero_no_tags)

lemma cyclic_tree_fields:
  "Kind (cyclic_tree 10) = DocumentNode" "Content (cyclic_tree 10) = [11]"
  "HeadComment (cyclic_tree 10) = []" "yaml_Node.FootComment (cyclic_tree 10) = []"
  "Kind (cyclic_tree 11) = SequenceNode" "Content (cyclic_tree 11) = [12]"
  "HeadComment (cyclic_tree 11) = []" "yaml_Node.FootComment (cyclic_tree 11) = []"
  "Kind (cyclic_tree 12) = AliasNode" "Alias (cyclic_tree 12) = Some 11"
  "HeadComment (cyclic_tree 12) = []" "yaml_Node.FootComment (cyclic_tree 12) = []"
  by (simp_all add: cyclic_tree_def zero_yaml_Node_def)

lemma cyclic_walk_diverges:
  "walk k example_deps cyclic_tree (visit example_deps cyclic_tree)
      \<lparr>Path = p, HeadComments = [], Node.FootComment = [], RawNode = Some 11\<rparr> st = None
   \<and> walk k example_deps cyclic_tree (visit example_deps cyclic_tree)
      \<lparr>Path = p, HeadComments = [], Node.FootComment = [], RawNode = Some 12\<rparr> st = None"
proof (induction k arbitrary: p st)
  case 0
  then show ?case by simp
next
  case (Suc k)
  have pc: "ParseComment example_deps [] = []"
    by (simp add: example_deps_def ParseComment_spec_empty)
  have v1: "visit example_deps cyclic_tree
      \<lparr>Path = p, HeadComments = [], Node.FootComment = [], RawNode = Some 11\<rparr> st = Inr ((False, None), st)"
    using cyclic_tree_fields by (intro visit_uncommented_container [where a = 11]) simp_all
  have v2: "visit example_deps cyclic_tree
      \<lparr>Path = p, HeadComments = [], Node.FootComment = [], RawNode = Some 12\<rparr> st = Inr ((False, None), st)"
    using cyclic_tree_fields by (intro visit_uncommented_container [where a = 12]) simp_all
  show ?case
    using Suc.IH [of "WithIndex p 0" st] Suc.IH [of p st] cyclic_tree_fields
    by (simp add: v1 v2 children_def pc)
qed

section \<open>The walk on the example tree\<close>

lemma example_tree_fields:
  "Kind (example_tree 10) = DocumentNode" "Content (example_tree 10) = [11]"
  "Kind (example_tree 11) = MappingNode" "Content (example_tree 11) = [12, 13, 14, 15]"
  "Value (example_tree 12) = ''a''" "Kind (example_tree 13) = ScalarNode" "Value (example_tree 13) = ''1''"
  "Value (example_tree 14) = ''b''" "HeadComment (example_tree 14) = ''docs:ignore''"
  "Kind (example_tree 15) = SequenceNode" "Content (example_tree 15) = [16]"
  "Kind (example_tree 16) = ScalarNode" "Value (example_tree 16) = ''x''"
  "HeadComment (example_tree 10) = []" "HeadComment (example_tree 11) = []" "HeadComment (example_tree 12) = []"
  "HeadComment (example_tree 13) = []" "HeadComment (example_tree 15) = []" "HeadComment (example_tree 16) = []"
  "yaml_Node.FootComment (example_tree a) = []"
  by (simp_all add: example_tree_def zero_yaml_Node_def scalar_Node_def)

lemma ParseComment_spec_ignore:
  "ParseComment_spec ''docs:ignore'' = [\<lparr>Tags = [TagIgnore \<mapsto> []], Comment.Sections = []\<rparr>]"
  by (simp add: ParseComment_spec_def blank_line_def is_fence_def directive_names_def flush_def
      TagSection_def TagIgnore_def TagType_def TagDefault_def TagProperty_def)

lemma Load_example_tree:
  "Load 3 example_deps example_tree 10 = Some (Inr (None, \<lparr>document = example_document, logged = []\<rparr>))"
  using example_tree_fields
  by (simp add: Load_def numeral_3_eq_3 root_Node_def example_deps_def ParseComment_spec_empty
      ParseComment_spec_ignore visit_def visit_body_def Pop_def isEndNode_def children_def
      GetBool_def GetString_def zero_Comment_def initial_state_def zero_Section_def
      getDefaultValue_def getTypeOf_def ShortTag_kind_def Reencode_scalar_def TrimSpace_ascii_def
      ascii_space_def is_digit_def appendProperty_def Path_String_def WithProperty_def Parent_def
      TagSection_def TagIgnore_def TagType_def TagDefault_def TagProperty_def example_document_def)

lemma no_section_example_tree: "no_section_directives example_deps example_tree"
  unfolding no_section_directives_def
  by (simp add: example_tree_def example_deps_def zero_yaml_Node_def scalar_Node_def no_section_def
      ParseComment_spec_empty ParseComment_spec_ignore GetBool_def TagSection_def TagIgnore_def)

section \<open>Evaluation of the examples\<close>

lemmas example_defs = example_deps_def Unmarshal_kv_def ShortTag_kind_def scalar_Node_def zero_yaml_Node_def
  Reencode_scalar_def TrimSpace_ascii_def ascii_space_def is_digit_def
  initial_state_def zero_Section_def tag_defs GetBool_def GetString_def zero_Comment_def
  appendProperty_def getTypeOf_def getDefaultValue_def Path_String_def WithProperty_def WithIndex_def Parent_def
  property_names_def property_descriptions_def property_defaults_def all_properties_def

lemma Unmarshal_kv_examples:
  "Unmarshal_kv ''a: 1'' = (zero_yaml_Node\<lparr>Kind := DocumentNode, Content := [20]\<rparr>,
      (\<lambda>a. zero_yaml_Node)(20 := zero_yaml_Node\<lparr>Kind := MappingNode, Content := [21, 22]\<rparr>,
         21 := scalar_Node ''a'', 22 := scalar_Node ''1''))"
  "Unmarshal_kv ''b: 2'' = (zero_yaml_Node\<lparr>Kind := DocumentNode, Content := [20]\<rparr>,
      (\<lambda>a. zero_yaml_Node)(20 := zero_yaml_Node\<lparr>Kind := MappingNode, Content := [21, 22]\<rparr>,
         21 := scalar_Node ''b'', 22 := scalar_Node ''2''))"
  "Unmarshal_kv ''foo: bar'' = (zero_yaml_Node\<lparr>Kind := DocumentNode, Content := [20]\<rparr>,
      (\<lambda>a. zero_yaml_Node)(20 := zero_yaml_Node\<lparr>Kind := MappingNode, Content := [21, 22]\<rparr>,
         21 := scalar_Node ''foo'', 22 := scalar_Node ''bar''))"
  by (simp_all add: Unmarshal_kv_def)

lemma inferProperty_code_foo:
  "Comment.Sections c = [code_foo] \<Longrightarrow>
   inferProperty example_deps [] c =
     (\<lparr>Path = [stringPathComponent ''foo''], HeadComments = [c], Node.FootComment = [],
       RawNode = Some 22\<rparr>,
      snd (Unmarshal_kv ''foo: bar''),
      \<lparr>Tags = Tags c, Comment.Sections = []\<rparr>)"
  using inferProperty_last_code [of c "[]" code_foo "[]" example_deps
      "fst (Unmarshal_kv ''foo: bar'')" "snd (Unmarshal_kv ''foo: bar'')" "[]"]
  by (simp add: code_foo_def example_deps_def single_key_def Unmarshal_kv_examples zero_yaml_Node_def
      scalar_Node_def WithProperty_def)

lemma bounded_example_tree: "bounded (Suc (Suc (Suc (Suc 0)))) example_tree (Some 10)"
  by (simp add: example_tree_def zero_yaml_Node_def scalar_Node_def)

lemma cyclic_unbounded: "\<not> bounded k cyclic_tree (Some 11) \<and> \<not> bounded k cyclic_tree (Some 12)"
  using cyclic_tree_fields by (induction k) auto

section \<open>The walk on the tree with a section, and the nodes of the cycle\<close>

lemma section_tree_fields:
  "Kind (section_tree 30) = DocumentNode" "Content (section_tree 30) = [31]"
  "Kind (section_tree 31) = MappingNode" "Content (section_tree 31) = [32, 33, 34, 35]"
  "Value (section_tree 32) = ''a''" "Kind (section_tree 33) = ScalarNode" "Value (section_tree 33) = ''1''"
  "Value (section_tree 34) = ''b''"
  "HeadComment (section_tree 34) = ''x'' @ [CHR 0x0A, CHR 0x0A] @ ''docs:section=Foo''"
  "Kind (section_tree 35) = ScalarNode" "Value (section_tree 35) = ''2''"
  "HeadComment (section_tree 30) = []" "HeadComment (section_tree 31) = []" "HeadComment (section_tree 32) = []"
  "yaml_Node.FootComment (section_tree a) = []"
  by (simp_all add: section_tree_def zero_yaml_Node_def scalar_Node_def)

lemma ParseComment_spec_section:
  "ParseComment_spec (''x'' @ [CHR 0x0A, CHR 0x0A] @ ''docs:section=Foo'') =
     [text_x_Comment, \<lparr>Tags = [TagSection \<mapsto> ''Foo''], Comment.Sections = []\<rparr>]"
  by (simp add: ParseComment_spec_def blank_line_def is_fence_def directive_names_def flush_def
      text_x_Comment_def tag_defs)

lemma Load_section_tree:
  "Load 3 example_deps section_tree 30 = Some (Inr (None, \<lparr>document = section_document, logged = []\<rparr>))"
  using section_tree_fields ParseComment_spec_section
  by (simp add: Load_def numeral_3_eq_3 root_Node_def example_deps_def ParseComment_spec_empty
      visit_def visit_body_def Pop_def isEndNode_def children_def
      GetBool_def GetString_def zero_Comment_def initial_state_def zero_Section_def
      getDefaultValue_def getTypeOf_def ShortTag_kind_def Reencode_scalar_def TrimSpace_ascii_def
      ascii_space_def is_digit_def appendProperty_def Path_String_def WithProperty_def Parent_def
      tag_defs section_document_def property_a_def property_b_def text_x_Comment_def
      Comment_String_spec_def)

lemma well_formed_section_tree: "well_formed (Suc (Suc (Suc 0))) section_tree (Some 30)"
  by (simp add: section_tree_def zero_yaml_Node_def scalar_Node_def)

lemma well_formed_example_tree: "well_formed (Suc (Suc (Suc (Suc 0)))) example_tree (Some 10)"
  by (simp add: example_tree_def zero_yaml_Node_def scalar_Node_def)

lemma cycle_Nodes_closed:
  assumes "n \<in> cycle_Nodes"
  shows "\<exists>st' a c rest. visit example_deps cyclic_tree n st = Inr ((False, None), st')
      \<and> RawNode n = Some a \<and> children example_deps cyclic_tree n (cyclic_tree a) = Inr c # rest
      \<and> c \<in> cycle_Nodes"
proof -
  have pc: "ParseComment example_deps [] = []"
    by (simp add: example_deps_def ParseComment_spec_empty)
  from assms have h: "HeadComments n = []" "Node.FootComment n = []"
    and r: "RawNode n = Some 11 \<or> RawNode n = Some 12" by (simp_all add: cycle_Nodes_def)
  from r show ?thesis
  proof
    assume a: "RawNode n = Some 11"
    have v: "visit example_deps cyclic_tree n st = Inr ((False, None), st)"
      using cyclic_tree_fields h a by (intro visit_uncommented_container [where a = 11]) simp_all
    show ?thesis using v a cyclic_tree_fields
      by (simp add: children_def pc cycle_Nodes_def)
  next
    assume a: "RawNode n = Some 12"
    have v: "visit example_deps cyclic_tree n st = Inr ((False, None), st)"
      using cyclic_tree_fields h a by (intro visit_uncommented_container [where a = 12]) simp_all
    show ?thesis using v a cyclic_tree_fields
      by (simp add: children_def pc cycle_Nodes_def)
  qed
qed

lemma well_formed_3: "well_formed 3 section_tree (Some 30)"
  using well_formed_section_tree by (simp add: numeral_3_eq_3)

section \<open>The claims about the path grammar\<close>

text \<open>
  C8. At a position where neither grammar rule matches, \<open>ParsePath\<close> fails with a syntax
  error and returns the components parsed up to that position: if \<open>consumed\<close> parses
  without error to \<open>p\<close> and no segment starts at the non-empty \<open>rest\<close> (which does not merely
  continue the last name of \<open>consumed\<close>), then \<open>consumed @ rest\<close> parses to \<open>p\<close> with the
  error; a string that holds a character outside the grammar's alphabet fails; every
  failure returns the result of parsing the consumed prefix; and \<open>foo[0]aa\<close> yields the
  error together with \<open>foo\<close>, \<open>0\<close>. The parser is the one modelled from the spec.
\<close>

theorem ParsePath_syntax_error:
  "(ParsePath consumed = (p, None) \<and> rest \<noteq> [] \<and> next_segment (consumed = []) rest = None
      \<and> boundary consumed rest
      \<longrightarrow> ParsePath (consumed @ rest) = (p, Some SyntaxError))
   \<and> (x \<in> set s \<and> \<not> grammar_char x \<longrightarrow> snd (ParsePath s) = Some SyntaxError)
   \<and> (snd (ParsePath s) = Some SyntaxError \<longrightarrow>
        (\<exists>consumed rest. s = consumed @ rest \<and> rest \<noteq> []
           \<and> next_segment (consumed = []) rest = None
           \<and> ParsePath consumed = (fst (ParsePath s), None)))
   \<and> ParsePath ''foo[0]aa'' = ([stringPathComponent ''foo'', indexPathComponent 0], Some SyntaxError)"
proof (intro conjI impI)
  assume h: "ParsePath consumed = (p, None) \<and> rest \<noteq> [] \<and> next_segment (consumed = []) rest = None
      \<and> boundary consumed rest"
  then have "consumed \<noteq> [] \<and> is_name_char (last consumed) \<longrightarrow> \<not> is_name_char (hd rest)"
    by (auto simp: boundary_def)
  with h show "ParsePath (consumed @ rest) = (p, Some SyntaxError)"
    unfolding ParsePath_def by (intro parse_loop_stuck) simp_all
next
  assume h: "x \<in> set s \<and> \<not> grammar_char x"
  obtain q e where r: "ParsePath s = (q, e)" by (cases "ParsePath s")
  have "e \<noteq> None"
  proof
    assume "e = None"
    with r have "list_all grammar_char s" unfolding ParsePath_def by (auto dest: parse_loop_ok_chars)
    with h show False by (auto simp: list_all_iff)
  qed
  moreover have "a = SyntaxError" for a :: path_error by (cases a) simp
  ultimately show "snd (ParsePath s) = Some SyntaxError" using r by (cases e) auto
next
  assume h: "snd (ParsePath s) = Some SyntaxError"
  then have "parse_loop True s [] = (fst (ParsePath s), Some SyntaxError)"
    unfolding ParsePath_def by (metis prod.collapse)
  from parse_loop_error_prefix [OF this]
  show "\<exists>consumed rest. s = consumed @ rest \<and> rest \<noteq> []
           \<and> next_segment (consumed = []) rest = None
           \<and> ParsePath consumed = (fst (ParsePath s), None)"
    unfolding ParsePath_def by simp
next
  show "ParsePath ''foo[0]aa'' = ([stringPathComponent ''foo'', indexPathComponent 0], Some SyntaxError)"
    by (simp add: ParsePath_def parse_loop.simps next_segment_def property_segment_def
        index_segment_def name_of_def is_name_char_def is_digit_def parse_nat_def digit_val_def)
qed

theorem ParsePath_syntax_error_witness:
  "ParsePath ''foo[0]'' = ([stringPathComponent ''foo'', indexPathComponent 0], None)
   \<and> next_segment False ''aa'' = None
   \<and> boundary ''foo[0]'' ''aa''
   \<and> ParsePath (''foo[0]'' @ ''aa'') = ([stringPathComponent ''foo'', indexPathComponent 0], Some SyntaxError)
   \<and> CHR '' '' \<in> set ''a b'' \<and> \<not> grammar_char CHR '' ''
   \<and> ParsePath ''a b'' = ([stringPathComponent ''a''], Some SyntaxError)"
proof -
  have a: "ParsePath ''foo[0]'' = ([stringPathComponent ''foo'', indexPathComponent 0], None)"
    by (simp add: ParsePath_def parse_loop.simps next_segment_def property_segment_def
        index_segment_def name_of_def is_name_char_def is_digit_def parse_nat_def digit_val_def)
  have b: "next_segment False ''aa'' = None"
    by (simp add: next_segment_def property_segment_def index_segment_def)
  have c: "boundary ''foo[0]'' ''aa''"
    by (simp add: boundary_def is_name_char_def)
  have d: "CHR '' '' \<in> set ''a b'' \<and> \<not> grammar_char CHR '' ''"
    by (simp add: grammar_char_def is_name_char_def)
  have e: "fst (ParsePath ''a b'') = [stringPathComponent ''a'']"
    by (simp add: ParsePath_def parse_loop.simps next_segment_def property_segment_def
        index_segment_def name_of_def is_name_char_def is_digit_def parse_nat_def digit_val_def)
  from ParsePath_syntax_error [of "''foo[0]''" "[stringPathComponent ''foo'', indexPathComponent 0]" "''aa''"
      "CHR '' ''" "''a b''"] a b c d e
  show ?thesis by (auto simp: prod_eq_iff)
qed

text \<open>
  C9. Parsing the canonical string of a valid path (every property name a non-empty word
  over the name characters) yields the path and no error; the empty string yields the
  empty path and no error. The parser and the rendering are the ones modelled from the
  spec.
\<close>

theorem ParsePath_roundtrip:
  "valid_path p \<Longrightarrow> ParsePath (Path_String p) = (p, None) \<and> ParsePath [] = ([], None)"
  using parse_loop_render [of p True "[]"] parse_loop_render [of "[]" True "[]"]
  by (simp add: ParsePath_def Path_String_def valid_path_def)

theorem ParsePath_roundtrip_witness:
  "valid_path [stringPathComponent ''foo'', stringPathComponent ''bar'', indexPathComponent 0,
               stringPathComponent ''baz'']
   \<and> Path_String [stringPathComponent ''foo'', stringPathComponent ''bar'', indexPathComponent 0,
               stringPathComponent ''baz''] = ''foo.bar[0].baz''
   \<and> ParsePath ''foo.bar[0].baz'' =
       ([stringPathComponent ''foo'', stringPathComponent ''bar'', indexPathComponent 0,
         stringPathComponent ''baz''], None)"
proof -
  let ?p = "[stringPathComponent ''foo'', stringPathComponent ''bar'', indexPathComponent 0,
             stringPathComponent ''baz'']"
  have v: "valid_path ?p"
    by (simp add: valid_path_def valid_component_def is_name_char_def)
  have s: "Path_String ?p = ''foo.bar[0].baz''"
    by (simp add: Path_String_def show_nat_0)
  from ParsePath_roundtrip [OF v] v s show ?thesis by simp
qed

section \<open>The claims about the walk and the assembly\<close>

text \<open>
  C1, as the code has it. The walk holds no cycle detection and raises no structural
  error: the callback of \<open>Load\<close> returns a nil error on every node, so a walk that returns,
  returns no error, and on a tree of bounded depth as the decoder builds it the walk
  returns without a panic and without an error. An alias node is followed to its target
  under the same path, with no record of the nodes already visited. When the walk enters
  a set of nodes at each of which the callback neither stops nor fails and whose first
  child is again in the set, it does not return at any depth of recursion; the tree of
  \<^verbatim>\<open>&x [*x]\<close>, whose alias refers to the sequence that holds it, is such a case.
\<close>

theorem walk_returns_no_error:
  "(walk k D S (visit D S) n st = Some (Inr (e, st')) \<longrightarrow> e = None)
   \<and> (bounded j S (RawNode m) \<longrightarrow> walk j D S (visit D S) m s \<noteq> None)
   \<and> (well_formed j S (RawNode m) \<and> Document.Sections (document s) \<noteq> [] \<longrightarrow>
        (\<exists>s'. walk j D S (visit D S) m s = Some (Inr (None, s'))))
   \<and> (Kind raw = AliasNode \<longrightarrow>
        children D S' root raw =
          [Inr \<lparr>Path = Path root, HeadComments = ParseComment D (HeadComment raw),
                Node.FootComment = ParseComment D (yaml_Node.FootComment raw),
                RawNode = Alias raw\<rparr>])
   \<and> ((\<forall>c \<in> C. \<forall>t. \<exists>t' a c' rest. fn c t = Inr ((False, None), t') \<and> RawNode c = Some a
            \<and> children D S c (S a) = Inr c' # rest \<and> c' \<in> C) \<and> x \<in> C \<longrightarrow>
        walk i D S fn x u = None)"
proof (intro conjI impI)
  assume "walk k D S (visit D S) n st = Some (Inr (e, st'))"
  then show "e = None"
    by (rule walk_no_error [rotated]) (rule visit_nil_error)
next
  assume "bounded j S (RawNode m)"
  then show "walk j D S (visit D S) m s \<noteq> None" by (rule walk_returns)
next
  assume "well_formed j S (RawNode m) \<and> Document.Sections (document s) \<noteq> []"
  then show "\<exists>s'. walk j D S (visit D S) m s = Some (Inr (None, s'))"
    using walk_completes by blast
next
  assume "Kind raw = AliasNode"
  then show "children D S' root raw =
          [Inr \<lparr>Path = Path root, HeadComments = ParseComment D (HeadComment raw),
                Node.FootComment = ParseComment D (yaml_Node.FootComment raw),
                RawNode = Alias raw\<rparr>]"
    by (simp add: children_def)
next
  assume h: "(\<forall>c \<in> C. \<forall>t. \<exists>t' a c' rest. fn c t = Inr ((False, None), t') \<and> RawNode c = Some a
            \<and> children D S c (S a) = Inr c' # rest \<and> c' \<in> C) \<and> x \<in> C"
  then have "\<And>c t. c \<in> C \<Longrightarrow> \<exists>t' a c' rest. fn c t = Inr ((False, None), t') \<and> RawNode c = Some a
            \<and> children D S c (S a) = Inr c' # rest \<and> c' \<in> C" by blast
  from walk_diverges [where C = C and fn = fn, OF this] h
  show "walk i D S fn x u = None" by blast
qed

theorem walk_returns_no_error_witness:
  "walk 3 example_deps example_tree (visit example_deps example_tree)
      (root_Node example_deps example_tree 10) initial_state
     = Some (Inr (None, \<lparr>document = example_document, logged = []\<rparr>))
   \<and> bounded (Suc (Suc (Suc (Suc 0)))) example_tree (RawNode (root_Node example_deps example_tree 10))
   \<and> walk (Suc (Suc (Suc (Suc 0)))) example_deps example_tree (visit example_deps example_tree)
        (root_Node example_deps example_tree 10) initial_state \<noteq> None
   \<and> well_formed (Suc (Suc (Suc (Suc 0)))) example_tree (RawNode (root_Node example_deps example_tree 10))
   \<and> Document.Sections (document initial_state) \<noteq> []
   \<and> (\<exists>s'. walk (Suc (Suc (Suc (Suc 0)))) example_deps example_tree (visit example_deps example_tree)
          (root_Node example_deps example_tree 10) initial_state = Some (Inr (None, s')))
   \<and> Kind (cyclic_tree 12) = AliasNode
   \<and> children example_deps cyclic_tree sequence_Node (cyclic_tree 12) =
       [Inr \<lparr>Path = [stringPathComponent ''b''], HeadComments = [], Node.FootComment = [],
             RawNode = Some 11\<rparr>]
   \<and> \<lparr>Path = [], HeadComments = [], Node.FootComment = [], RawNode = Some 11\<rparr> \<in> cycle_Nodes
   \<and> walk 7 example_deps cyclic_tree (visit example_deps cyclic_tree)
        \<lparr>Path = [], HeadComments = [], Node.FootComment = [], RawNode = Some 11\<rparr> initial_state = None"
proof -
  have k: "Kind (cyclic_tree 12) = AliasNode" using cyclic_tree_fields by simp
  have b: "bounded (Suc (Suc (Suc (Suc 0)))) example_tree (RawNode (root_Node example_deps example_tree 10))"
    using bounded_example_tree by (simp add: root_Node_def)
  have w: "well_formed (Suc (Suc (Suc (Suc 0)))) example_tree (RawNode (root_Node example_deps example_tree 10))"
    using well_formed_example_tree by (simp add: root_Node_def)
  have ne: "Document.Sections (document initial_state) \<noteq> []" by (simp add: initial_state_def)
  have m: "\<lparr>Path = [], HeadComments = [], Node.FootComment = [], RawNode = Some 11\<rparr> \<in> cycle_Nodes"
    by (simp add: cycle_Nodes_def)
  have c: "\<forall>c \<in> cycle_Nodes. \<forall>t. \<exists>t' a c' rest.
      visit example_deps cyclic_tree c t = Inr ((False, None), t') \<and> RawNode c = Some a
      \<and> children example_deps cyclic_tree c (cyclic_tree a) = Inr c' # rest \<and> c' \<in> cycle_Nodes"
    using cycle_Nodes_closed by blast
  have 1: "walk 7 example_deps cyclic_tree (visit example_deps cyclic_tree)
        \<lparr>Path = [], HeadComments = [], Node.FootComment = [], RawNode = Some 11\<rparr> initial_state = None"
    using walk_returns_no_error [where C = cycle_Nodes and D = example_deps and S = cyclic_tree
        and fn = "visit example_deps cyclic_tree"
        and x = "\<lparr>Path = [], HeadComments = [], Node.FootComment = [], RawNode = Some 11\<rparr>"
        and i = 7 and u = initial_state] c m
    by blast
  note T = walk_returns_no_error [of 3 example_deps example_tree "root_Node example_deps example_tree 10"
      initial_state None "\<lparr>document = example_document, logged = []\<rparr>"
      "Suc (Suc (Suc (Suc 0)))" "root_Node example_deps example_tree 10" initial_state
      "cyclic_tree 12" cyclic_tree sequence_Node cycle_Nodes "visit example_deps cyclic_tree"
      "\<lparr>Path = [], HeadComments = [], Node.FootComment = [], RawNode = Some 11\<rparr>" 7 initial_state]
  have 0: "walk 3 example_deps example_tree (visit example_deps example_tree)
      (root_Node example_deps example_tree 10) initial_state
     = Some (Inr (None, \<lparr>document = example_document, logged = []\<rparr>))"
    using Load_example_tree unfolding Load_def .
  have 2: "walk (Suc (Suc (Suc (Suc 0)))) example_deps example_tree (visit example_deps example_tree)
        (root_Node example_deps example_tree 10) initial_state \<noteq> None"
    using T b by blast
  have 3: "\<exists>s'. walk (Suc (Suc (Suc (Suc 0)))) example_deps example_tree (visit example_deps example_tree)
          (root_Node example_deps example_tree 10) initial_state = Some (Inr (None, s'))"
    using T w ne by blast
  have "children example_deps cyclic_tree sequence_Node (cyclic_tree 12) =
       [Inr \<lparr>Path = Path sequence_Node,
             HeadComments = ParseComment example_deps (HeadComment (cyclic_tree 12)),
             Node.FootComment = ParseComment example_deps (yaml_Node.FootComment (cyclic_tree 12)),
             RawNode = Alias (cyclic_tree 12)\<rparr>]"
    using T k by blast
  then have 4: "children example_deps cyclic_tree sequence_Node (cyclic_tree 12) =
       [Inr \<lparr>Path = [stringPathComponent ''b''], HeadComments = [], Node.FootComment = [],
             RawNode = Some 11\<rparr>]"
    using cyclic_tree_fields by (simp add: sequence_Node_def example_deps_def ParseComment_spec_empty)
  from 0 b 2 w ne 3 k 4 m 1 show ?thesis by blast
qed

text \<open>The claim C1 fails on the cyclic tree: no bound on the depth of the recursion lets
  \<open>Load\<close> return, so it returns no structural error.\<close>

theorem cyclic_alias_counterexample:
  "\<forall>k. Load k example_deps cyclic_tree 10 = None"
proof
  fix k
  show "Load k example_deps cyclic_tree 10 = None"
  proof (cases k)
    case 0
    then show ?thesis by (simp add: Load_def)
  next
    case (Suc j)
    have pc: "ParseComment example_deps [] = []"
      by (simp add: example_deps_def ParseComment_spec_empty)
    have r: "root_Node example_deps cyclic_tree 10 =
        \<lparr>Path = [], HeadComments = [], Node.FootComment = [], RawNode = Some 10\<rparr>"
      using cyclic_tree_fields by (simp add: root_Node_def pc)
    have v0: "visit example_deps cyclic_tree
        \<lparr>Path = [], HeadComments = [], Node.FootComment = [], RawNode = Some 10\<rparr> initial_state
        = Inr ((False, None), initial_state)"
      using cyclic_tree_fields by (intro visit_uncommented_container [where a = 10]) simp_all
    show ?thesis
      using cyclic_walk_diverges [of j "[]" initial_state] cyclic_tree_fields
      by (simp add: Load_def Suc r v0 children_def pc)
  qed
qed

text \<open>
  C2, as the code has it. The loop that looks for the code block has no \<open>break\<close>: the block
  used for the inference, and removed from the description, is the last section of type
  code (the one no code section follows); a code section before it stays in the
  description. Without a code section the index stays \<open>-1\<close> and nothing is inferred.
\<close>

theorem code_block_is_last:
  "(Comment.Sections c = pre @ code # post \<and> CommentSection.Type code = CommentTypeCode
      \<and> list_all (\<lambda>s. CommentSection.Type s \<noteq> CommentTypeCode) post
      \<and> Unmarshal D (Section_String D code) = (node, S') \<longrightarrow>
      find_codeIdx 0 (Comment.Sections c) (- 1) = int (length pre)
      \<and> inferProperty D path c =
          (if single_key node S' then
             (\<lparr>Path = WithProperty path (Value (S' (Content (S' (Content node ! 0)) ! 0))),
               HeadComments = [c], Node.FootComment = [],
               RawNode = Some (Content (S' (Content node ! 0)) ! 1)\<rparr>,
              S',
              \<lparr>Tags = Tags c, Comment.Sections = pre @ post\<rparr>)
           else (\<lparr>Path = [], HeadComments = [c], Node.FootComment = [], RawNode = None\<rparr>, S', c)))
   \<and> (list_all (\<lambda>s. CommentSection.Type s \<noteq> CommentTypeCode) (Comment.Sections c) \<longrightarrow>
        find_codeIdx 0 (Comment.Sections c) (- 1) = - 1
        \<and> inferProperty D path c =
            (\<lparr>Path = [], HeadComments = [c], Node.FootComment = [], RawNode = None\<rparr>,
             (\<lambda>a. zero_yaml_Node), c))"
proof (intro conjI impI)
  assume h: "Comment.Sections c = pre @ code # post \<and> CommentSection.Type code = CommentTypeCode
      \<and> list_all (\<lambda>s. CommentSection.Type s \<noteq> CommentTypeCode) post
      \<and> Unmarshal D (Section_String D code) = (node, S')"
  then have p: "\<forall>s \<in> set post. CommentSection.Type s \<noteq> CommentTypeCode" by (simp add: list_all_iff)
  show "find_codeIdx 0 (Comment.Sections c) (- 1) = int (length pre)"
    using h find_codeIdx_last [of code post 0 pre "- 1"] p by simp
  show "inferProperty D path c =
          (if single_key node S' then
             (\<lparr>Path = WithProperty path (Value (S' (Content (S' (Content node ! 0)) ! 0))),
               HeadComments = [c], Node.FootComment = [],
               RawNode = Some (Content (S' (Content node ! 0)) ! 1)\<rparr>,
              S',
              \<lparr>Tags = Tags c, Comment.Sections = pre @ post\<rparr>)
           else (\<lparr>Path = [], HeadComments = [c], Node.FootComment = [], RawNode = None\<rparr>, S', c))"
    using inferProperty_last_code [of c pre code post D node S' path] h p by simp
next
  assume "list_all (\<lambda>s. CommentSection.Type s \<noteq> CommentTypeCode) (Comment.Sections c)"
  then have p: "\<forall>s \<in> set (Comment.Sections c). CommentSection.Type s \<noteq> CommentTypeCode"
    by (simp add: list_all_iff)
  show "find_codeIdx 0 (Comment.Sections c) (- 1) = - 1" using find_codeIdx_none [OF p] .
  show "inferProperty D path c =
            (\<lparr>Path = [], HeadComments = [c], Node.FootComment = [], RawNode = None\<rparr>,
             (\<lambda>a. zero_yaml_Node), c)"
    using inferProperty_no_code [OF p] .
qed

theorem code_block_is_last_witness:
  "Comment.Sections two_code_comment = [code_a] @ code_b # []
   \<and> CommentSection.Type code_b = CommentTypeCode
   \<and> list_all (\<lambda>s. CommentSection.Type s \<noteq> CommentTypeCode) []
   \<and> single_key (fst (Unmarshal_kv ''b: 2'')) (snd (Unmarshal_kv ''b: 2''))
   \<and> find_codeIdx 0 (Comment.Sections two_code_comment) (- 1) = 1
   \<and> Path (fst (inferProperty example_deps [] two_code_comment)) = [stringPathComponent ''b'']
   \<and> Comment.Sections (snd (snd (inferProperty example_deps [] two_code_comment))) = [code_a]
   \<and> list_all (\<lambda>s. CommentSection.Type s \<noteq> CommentTypeCode) (Comment.Sections nameless_comment)
   \<and> find_codeIdx 0 (Comment.Sections nameless_comment) (- 1) = - 1"
proof -
  have u: "Unmarshal example_deps (Section_String example_deps code_b) =
      (fst (Unmarshal_kv ''b: 2''), snd (Unmarshal_kv ''b: 2''))"
    by (simp add: example_deps_def code_b_def)
  have sk: "single_key (fst (Unmarshal_kv ''b: 2'')) (snd (Unmarshal_kv ''b: 2''))"
    by (simp add: Unmarshal_kv_examples single_key_def zero_yaml_Node_def)
  have v: "Value (snd (Unmarshal_kv ''b: 2'')
      (Content (snd (Unmarshal_kv ''b: 2'') (Content (fst (Unmarshal_kv ''b: 2'')) ! 0)) ! 0)) = ''b''"
    by (simp add: Unmarshal_kv_examples zero_yaml_Node_def scalar_Node_def)
  have s: "Comment.Sections two_code_comment = [code_a] @ code_b # []"
    "CommentSection.Type code_b = CommentTypeCode"
    by (simp_all add: two_code_comment_def code_b_def)
  have n: "list_all (\<lambda>s. CommentSection.Type s \<noteq> CommentTypeCode) (Comment.Sections nameless_comment)"
    by (simp add: nameless_comment_def)
  from code_block_is_last [of two_code_comment "[code_a]" code_b "[]" example_deps
      "fst (Unmarshal_kv ''b: 2'')" "snd (Unmarshal_kv ''b: 2'')" "[]"]
    code_block_is_last [of nameless_comment "[]" code_b "[]" example_deps
      "fst (Unmarshal_kv ''b: 2'')" "snd (Unmarshal_kv ''b: 2'')" "[]"]
    u sk v s n
  show ?thesis by (simp add: WithProperty_def)
qed

text \<open>The claim C2 fails on a comment with the code blocks \<^verbatim>\<open>a: 1\<close> and \<^verbatim>\<open>b: 2\<close>: the
  property is named after the second block, and the first block stays in its
  description.\<close>

theorem first_code_counterexample:
  "property_names (parseCommentsOntoDocument example_deps [] initial_state [two_code_comment]) = [''b'']
   \<and> property_descriptions (parseCommentsOntoDocument example_deps [] initial_state [two_code_comment])
       = [[code_a]]"
  by (simp add: two_code_comment_def code_a_def code_b_def inferProperty_def Let_def example_defs)

text \<open>
  C3, as the code has it. For a forwarded property comment the name is the explicit value
  of the directive whenever that value is not empty, whatever the code block holds. Only
  with an empty explicit value is the name the rendered path of the inferred node: the
  key of the single-key mapping appended to the forwarding path when the code block parses
  as one, the empty path otherwise. When both are empty the property is dropped, the
  diagnostic is logged, and the result is no error.
\<close>

theorem synthetic_property_name:
  "(\<not> GetBool (Tags c) TagSection \<and> GetBool (Tags c) TagProperty
      \<and> inferProperty D path c = (pn, S', c') \<and> GetString (Tags c) TagProperty \<noteq> [] \<longrightarrow>
      parseCommentsOntoDocument D path st [c] =
        (case appendProperty (document st)
                \<lparr>Property.Name = GetString (Tags c) TagProperty, Property.Description = c',
                 Property.Type = getTypeOf D S' pn c', Default = ''undefined''\<rparr> of
           Inl e \<Rightarrow> Inl e
         | Inr doc \<Rightarrow> Inr (st\<lparr>document := doc\<rparr>)))
   \<and> (\<not> GetBool (Tags c) TagSection \<and> GetBool (Tags c) TagProperty
      \<and> inferProperty D path c = (pn, S', c') \<and> GetString (Tags c) TagProperty = []
      \<and> Path_String (Path pn) \<noteq> [] \<longrightarrow>
      parseCommentsOntoDocument D path st [c] =
        (case appendProperty (document st)
                \<lparr>Property.Name = Path_String (Path pn), Property.Description = c',
                 Property.Type = getTypeOf D S' pn c', Default = ''undefined''\<rparr> of
           Inl e \<Rightarrow> Inl e
         | Inr doc \<Rightarrow> Inr (st\<lparr>document := doc\<rparr>)))
   \<and> (\<not> GetBool (Tags c) TagSection \<and> GetBool (Tags c) TagProperty
      \<and> inferProperty D path c = (pn, S', c') \<and> GetString (Tags c) TagProperty = []
      \<and> Path_String (Path pn) = [] \<longrightarrow>
      parseCommentsOntoDocument D path st [c] =
        Inr (st\<lparr>logged := logged st @ [''could not calculate undefined property name'']\<rparr>))
   \<and> (Comment.Sections c = pre @ code # post \<and> CommentSection.Type code = CommentTypeCode
      \<and> list_all (\<lambda>s. CommentSection.Type s \<noteq> CommentTypeCode) post
      \<and> Unmarshal D (Section_String D code) = (node, S'') \<longrightarrow>
      Path (fst (inferProperty D path c)) =
        (if single_key node S''
         then WithProperty path (Value (S'' (Content (S'' (Content node ! 0)) ! 0))) else []))
   \<and> (list_all (\<lambda>s. CommentSection.Type s \<noteq> CommentTypeCode) (Comment.Sections c) \<longrightarrow>
      Path (fst (inferProperty D path c)) = [])"
proof (intro conjI impI)
  assume h: "\<not> GetBool (Tags c) TagSection \<and> GetBool (Tags c) TagProperty
      \<and> inferProperty D path c = (pn, S', c') \<and> GetString (Tags c) TagProperty \<noteq> []"
  then show "parseCommentsOntoDocument D path st [c] =
        (case appendProperty (document st)
                \<lparr>Property.Name = GetString (Tags c) TagProperty, Property.Description = c',
                 Property.Type = getTypeOf D S' pn c', Default = ''undefined''\<rparr> of
           Inl e \<Rightarrow> Inl e
         | Inr doc \<Rightarrow> Inr (st\<lparr>document := doc\<rparr>))"
    using parseComments_property [of c D path pn S' c' st] by (simp add: Let_def)
next
  assume h: "\<not> GetBool (Tags c) TagSection \<and> GetBool (Tags c) TagProperty
      \<and> inferProperty D path c = (pn, S', c') \<and> GetString (Tags c) TagProperty = []
      \<and> Path_String (Path pn) \<noteq> []"
  then show "parseCommentsOntoDocument D path st [c] =
        (case appendProperty (document st)
                \<lparr>Property.Name = Path_String (Path pn), Property.Description = c',
                 Property.Type = getTypeOf D S' pn c', Default = ''undefined''\<rparr> of
           Inl e \<Rightarrow> Inl e
         | Inr doc \<Rightarrow> Inr (st\<lparr>document := doc\<rparr>))"
    using parseComments_property [of c D path pn S' c' st] by (simp add: Let_def)
next
  assume h: "\<not> GetBool (Tags c) TagSection \<and> GetBool (Tags c) TagProperty
      \<and> inferProperty D path c = (pn, S', c') \<and> GetString (Tags c) TagProperty = []
      \<and> Path_String (Path pn) = []"
  then show "parseCommentsOntoDocument D path st [c] =
        Inr (st\<lparr>logged := logged st @ [''could not calculate undefined property name'']\<rparr>)"
    using parseComments_property [of c D path pn S' c' st] by (simp add: Let_def)
next
  assume h: "Comment.Sections c = pre @ code # post \<and> CommentSection.Type code = CommentTypeCode
      \<and> list_all (\<lambda>s. CommentSection.Type s \<noteq> CommentTypeCode) post
      \<and> Unmarshal D (Section_String D code) = (node, S'')"
  then have p: "\<forall>s \<in> set post. CommentSection.Type s \<noteq> CommentTypeCode" by (simp add: list_all_iff)
  show "Path (fst (inferProperty D path c)) =
        (if single_key node S''
         then WithProperty path (Value (S'' (Content (S'' (Content node ! 0)) ! 0))) else [])"
    using inferProperty_last_code [of c pre code post D node S'' path] h p by simp
next
  assume "list_all (\<lambda>s. CommentSection.Type s \<noteq> CommentTypeCode) (Comment.Sections c)"
  then have p: "\<forall>s \<in> set (Comment.Sections c). CommentSection.Type s \<noteq> CommentTypeCode"
    by (simp add: list_all_iff)
  show "Path (fst (inferProperty D path c)) = []"
    using inferProperty_no_code [OF p] by simp
qed

theorem synthetic_property_name_witness:
  "GetBool (Tags explicit_name_comment) TagProperty
   \<and> GetString (Tags explicit_name_comment) TagProperty = ''explicit.name''
   \<and> property_names (parseCommentsOntoDocument example_deps [] initial_state [explicit_name_comment])
        = [''explicit.name'']
   \<and> GetBool (Tags inferred_name_comment) TagProperty
   \<and> GetString (Tags inferred_name_comment) TagProperty = []
   \<and> Path_String (Path (fst (inferProperty example_deps [] inferred_name_comment))) = ''foo''
   \<and> property_names (parseCommentsOntoDocument example_deps [] initial_state [inferred_name_comment])
        = [''foo'']
   \<and> GetBool (Tags nameless_comment) TagProperty
   \<and> GetString (Tags nameless_comment) TagProperty = []
   \<and> Path_String (Path (fst (inferProperty example_deps [] nameless_comment))) = []
   \<and> parseCommentsOntoDocument example_deps [] initial_state [nameless_comment]
        = Inr (initial_state\<lparr>logged := [''could not calculate undefined property name'']\<rparr>)"
proof -
  have e: "inferProperty example_deps [] explicit_name_comment =
     (\<lparr>Path = [stringPathComponent ''foo''], HeadComments = [explicit_name_comment],
       Node.FootComment = [], RawNode = Some 22\<rparr>,
      snd (Unmarshal_kv ''foo: bar''),
      \<lparr>Tags = Tags explicit_name_comment, Comment.Sections = []\<rparr>)"
    by (rule inferProperty_code_foo) (simp add: explicit_name_comment_def)
  have i: "inferProperty example_deps [] inferred_name_comment =
     (\<lparr>Path = [stringPathComponent ''foo''], HeadComments = [inferred_name_comment],
       Node.FootComment = [], RawNode = Some 22\<rparr>,
      snd (Unmarshal_kv ''foo: bar''),
      \<lparr>Tags = Tags inferred_name_comment, Comment.Sections = []\<rparr>)"
    by (rule inferProperty_code_foo) (simp add: inferred_name_comment_def)
  have n: "inferProperty example_deps [] nameless_comment =
     (\<lparr>Path = [], HeadComments = [nameless_comment], Node.FootComment = [], RawNode = None\<rparr>,
      (\<lambda>a. zero_yaml_Node), nameless_comment)"
    by (rule inferProperty_no_code) (simp add: nameless_comment_def)
  have t: "GetBool (Tags explicit_name_comment) TagProperty"
    "\<not> GetBool (Tags explicit_name_comment) TagSection"
    "GetString (Tags explicit_name_comment) TagProperty = ''explicit.name''"
    "GetBool (Tags inferred_name_comment) TagProperty"
    "\<not> GetBool (Tags inferred_name_comment) TagSection"
    "GetString (Tags inferred_name_comment) TagProperty = []"
    "GetBool (Tags nameless_comment) TagProperty"
    "\<not> GetBool (Tags nameless_comment) TagSection"
    "GetString (Tags nameless_comment) TagProperty = []"
    by (simp_all add: explicit_name_comment_def inferred_name_comment_def nameless_comment_def
        GetBool_def GetString_def tag_defs)
  from synthetic_property_name [of explicit_name_comment example_deps "[]"
      "\<lparr>Path = [stringPathComponent ''foo''], HeadComments = [explicit_name_comment],
        Node.FootComment = [], RawNode = Some 22\<rparr>"
      "snd (Unmarshal_kv ''foo: bar'')"
      "\<lparr>Tags = Tags explicit_name_comment, Comment.Sections = []\<rparr>" initial_state
      "[]" code_foo "[]" "fst (Unmarshal_kv ''foo: bar'')" "snd (Unmarshal_kv ''foo: bar'')"] e t
  have 1: "property_names (parseCommentsOntoDocument example_deps [] initial_state [explicit_name_comment])
        = [''explicit.name'']"
    by (simp add: property_names_def all_properties_def appendProperty_def initial_state_def zero_Section_def)
  from synthetic_property_name [of inferred_name_comment example_deps "[]"
      "\<lparr>Path = [stringPathComponent ''foo''], HeadComments = [inferred_name_comment],
        Node.FootComment = [], RawNode = Some 22\<rparr>"
      "snd (Unmarshal_kv ''foo: bar'')"
      "\<lparr>Tags = Tags inferred_name_comment, Comment.Sections = []\<rparr>" initial_state
      "[]" code_foo "[]" "fst (Unmarshal_kv ''foo: bar'')" "snd (Unmarshal_kv ''foo: bar'')"] i t
  have 2: "property_names (parseCommentsOntoDocument example_deps [] initial_state [inferred_name_comment])
        = [''foo'']"
    by (simp add: property_names_def all_properties_def appendProperty_def initial_state_def zero_Section_def
        Path_String_def)
  from synthetic_property_name [of nameless_comment example_deps "[]"
      "\<lparr>Path = [], HeadComments = [nameless_comment], Node.FootComment = [], RawNode = None\<rparr>"
      "\<lambda>a. zero_yaml_Node" nameless_comment initial_state
      "[]" code_foo "[]" "fst (Unmarshal_kv ''foo: bar'')" "snd (Unmarshal_kv ''foo: bar'')"] n t
  have 3: "parseCommentsOntoDocument example_deps [] initial_state [nameless_comment]
        = Inr (initial_state\<lparr>logged := [''could not calculate undefined property name'']\<rparr>)"
    by (simp add: Path_String_def initial_state_def)
  from 1 2 3 t i n show ?thesis by (simp add: Path_String_def)
qed

text \<open>The claim C3 fails on a comment with \<^verbatim>\<open>docs:property=explicit.name\<close> and the code
  block \<^verbatim>\<open>foo: bar\<close>: the block parses as a single-key mapping with the key \<open>foo\<close>, and the
  property is named \<open>explicit.name\<close>.\<close>

theorem explicit_name_counterexample:
  "Path (fst (inferProperty example_deps [] explicit_name_comment)) = [stringPathComponent ''foo'']
   \<and> property_names (parseCommentsOntoDocument example_deps [] initial_state [explicit_name_comment])
        = [''explicit.name'']"
  by (simp add: explicit_name_comment_def code_foo_def inferProperty_def Let_def example_defs)

text \<open>
  C4. A walk that starts with at least one section ends with at least one: from the
  document before to the document after, properties were appended to the section that was
  last, and sections were appended behind it, the sections before it being unchanged; and
  the properties of the document, read section by section, are those it had followed by
  the properties the walk discovers, in the order of discovery. When no comment of the
  tree carries the section directive, no section is appended. For \<open>Load\<close>, which starts from
  the one implicit section, the first section of the result is the implicit one, the
  properties of the result are exactly the discovered ones in their order, and when the
  tree has no section directive the implicit section is the only one and holds them all.
  On a tree of bounded depth as the decoder builds it, \<open>Load\<close> returns such a document.
  Every append goes to the last section.
\<close>

theorem sections_invariant:
  "(walk k D S (visit D S) n st = Some (Inr (e, st')) \<and> Document.Sections (document st) \<noteq> [] \<longrightarrow>
      grows (document st) (document st')
      \<and> document_properties (document st') = document_properties (document st) @ discovered k D S n
      \<and> (no_section_directives D S \<and> no_section (HeadComments n) \<and> no_section (Node.FootComment n)
           \<longrightarrow> appends (document st) (document st')))
   \<and> (Load k D S root = Some (Inr (e, st')) \<longrightarrow>
        (\<exists>ps new. Document.Sections (document st') = add_properties ps zero_Section # new)
        \<and> document_properties (document st') = discovered k D S (root_Node D S root)
        \<and> (no_section_directives D S \<longrightarrow>
             (\<exists>ps. Document.Sections (document st') = [add_properties ps zero_Section])
             \<and> Document.Sections (document st') =
                 [add_properties (discovered k D S (root_Node D S root)) zero_Section]))
   \<and> (well_formed k S (Some root) \<longrightarrow> (\<exists>s'. Load k D S root = Some (Inr (None, s'))))
   \<and> (appendProperty d p = Inr d' \<longrightarrow>
        Document.Sections d \<noteq> [] \<and>
        Document.Sections d' = butlast (Document.Sections d) @
          [(last (Document.Sections d))\<lparr>Properties := Properties (last (Document.Sections d)) @ [p]\<rparr>])"
proof (intro conjI impI)
  assume h: "walk k D S (visit D S) n st = Some (Inr (e, st')) \<and> Document.Sections (document st) \<noteq> []"
  then show "grows (document st) (document st')" using walk_grows by blast
  from h show "document_properties (document st') = document_properties (document st) @ discovered k D S n"
    using walk_properties by blast
  assume "no_section_directives D S \<and> no_section (HeadComments n) \<and> no_section (Node.FootComment n)"
  with h show "appends (document st) (document st')" using walk_appends by blast
next
  assume l: "Load k D S root = Some (Inr (e, st'))"
  have ne: "Document.Sections (document initial_state) \<noteq> []" by (simp add: initial_state_def)
  from l have w: "walk k D S (visit D S) (root_Node D S root) initial_state = Some (Inr (e, st'))"
    by (simp add: Load_def)
  from walk_grows [OF w ne]
  show "\<exists>ps new. Document.Sections (document st') = add_properties ps zero_Section # new"
    by (auto simp: grows_def initial_state_def)
  from walk_properties [OF w ne]
  show dp: "document_properties (document st') = discovered k D S (root_Node D S root)"
    by (simp add: initial_state_def document_properties_def zero_Section_def)
  assume nsd: "no_section_directives D S"
  then have "no_section (HeadComments (root_Node D S root))" "no_section (Node.FootComment (root_Node D S root))"
    by (simp_all add: no_section_directives_def root_Node_def)
  from walk_appends [OF w ne nsd this]
  obtain ps where ps: "Document.Sections (document st') = [add_properties ps zero_Section]"
    by (auto simp: appends_def initial_state_def)
  then show "\<exists>ps. Document.Sections (document st') = [add_properties ps zero_Section]" by blast
  from ps dp have "ps = discovered k D S (root_Node D S root)"
    by (simp add: document_properties_def add_properties_def zero_Section_def)
  with ps show "Document.Sections (document st') =
      [add_properties (discovered k D S (root_Node D S root)) zero_Section]" by simp
next
  assume wf: "well_formed k S (Some root)"
  have ne: "Document.Sections (document initial_state) \<noteq> []" by (simp add: initial_state_def)
  from wf have "well_formed k S (RawNode (root_Node D S root))" by (simp add: root_Node_def)
  from walk_completes [OF this ne]
  show "\<exists>s'. Load k D S root = Some (Inr (None, s'))" by (simp add: Load_def)
next
  assume "appendProperty d p = Inr d'"
  then show "Document.Sections d \<noteq> []" by (auto simp: appendProperty_def split: if_splits)
next
  assume "appendProperty d p = Inr d'"
  then show "Document.Sections d' = butlast (Document.Sections d) @
          [(last (Document.Sections d))\<lparr>Properties := Properties (last (Document.Sections d)) @ [p]\<rparr>]"
    by (auto simp: appendProperty_def split: if_splits)
qed

theorem sections_invariant_witness:
  "walk 3 example_deps section_tree (visit example_deps section_tree)
      (root_Node example_deps section_tree 30) initial_state
     = Some (Inr (None, \<lparr>document = section_document, logged = []\<rparr>))
   \<and> Document.Sections (document initial_state) \<noteq> []
   \<and> grows (document initial_state) section_document
   \<and> discovered 3 example_deps section_tree (root_Node example_deps section_tree 30)
       = [property_a, property_b]
   \<and> well_formed 3 section_tree (Some 30)
   \<and> no_section_directives example_deps example_tree
   \<and> Load 3 example_deps example_tree 10
       = Some (Inr (None, \<lparr>document = example_document, logged = []\<rparr>))
   \<and> discovered 3 example_deps example_tree (root_Node example_deps example_tree 10) = [property_a]
   \<and> Document.Sections example_document = [add_properties [property_a] zero_Section]
   \<and> appendProperty (document initial_state) property_a = Inr example_document"
proof -
  let ?s = "\<lparr>document = section_document, logged = []\<rparr>"
  let ?t = "\<lparr>document = example_document, logged = []\<rparr>"
  have w: "walk 3 example_deps section_tree (visit example_deps section_tree)
      (root_Node example_deps section_tree 30) initial_state = Some (Inr (None, ?s))"
    using Load_section_tree by (simp add: Load_def)
  have ne: "Document.Sections (document initial_state) \<noteq> []" by (simp add: initial_state_def)
  have dp: "document_properties (document initial_state) = []"
    "document_properties section_document = [property_a, property_b]"
    "document_properties example_document = [property_a]"
    by (simp_all add: document_properties_def initial_state_def zero_Section_def section_document_def
        example_document_def property_a_def)
  have ap: "appendProperty (document initial_state) property_a = Inr example_document"
    by (simp add: appendProperty_def initial_state_def example_document_def zero_Section_def property_a_def)
  note a = sections_invariant [of 3 example_deps section_tree "root_Node example_deps section_tree 30"
      initial_state None ?s 30 "document initial_state" property_a example_document]
  note b = sections_invariant [of 3 example_deps example_tree "root_Node example_deps example_tree 10"
      initial_state None ?t 10 "document initial_state" property_a example_document]
  have 1: "grows (document initial_state) section_document"
    "discovered 3 example_deps section_tree (root_Node example_deps section_tree 30)
       = [property_a, property_b]"
    using a w ne dp by simp_all
  have 2: "discovered 3 example_deps example_tree (root_Node example_deps example_tree 10) = [property_a]"
    "Document.Sections example_document =
       [add_properties (discovered 3 example_deps example_tree (root_Node example_deps example_tree 10))
          zero_Section]"
    using b Load_example_tree no_section_example_tree dp by simp_all
  from 1 2 w ne well_formed_3 no_section_example_tree Load_example_tree ap
  show ?thesis by simp
qed

text \<open>
  C5. \<open>isEndNode\<close> decides in this order: a document node is not an end node; a scalar node
  is one; a node whose comment sets \<open>docs:property\<close> is one; a mapping or a sequence is one
  exactly when it is empty; every other node is not. At an end node the walk returns what
  the callback returns and visits no child.
\<close>

theorem isEndNode_priority:
  "(RawNode n = Some a \<and> Kind (S a) = DocumentNode \<longrightarrow> isEndNode S n c = Inr False)
   \<and> (RawNode n = Some a \<and> Kind (S a) = ScalarNode \<longrightarrow> isEndNode S n c = Inr True)
   \<and> (RawNode n = Some a \<and> Kind (S a) \<noteq> DocumentNode \<and> GetBool (Tags c) TagProperty
        \<longrightarrow> isEndNode S n c = Inr True)
   \<and> (RawNode n = Some a \<and> (Kind (S a) = MappingNode \<or> Kind (S a) = SequenceNode)
        \<and> \<not> GetBool (Tags c) TagProperty \<longrightarrow> isEndNode S n c = Inr (Content (S a) = []))
   \<and> (RawNode n = Some a \<and> (Kind (S a) = AliasNode \<or> Kind (S a) = NoKind)
        \<and> \<not> GetBool (Tags c) TagProperty \<longrightarrow> isEndNode S n c = Inr False)
   \<and> (Pop (HeadComments n) = (c, hs) \<and> isEndNode S n c = Inr True \<longrightarrow>
        walk (Suc k) D S (visit D S) n st =
          (case visit D S n st of Inl e \<Rightarrow> Some (Inl e) | Inr (r, st') \<Rightarrow> Some (Inr (None, st'))))"
proof (intro conjI impI)
  assume h: "Pop (HeadComments n) = (c, hs) \<and> isEndNode S n c = Inr True"
  show "walk (Suc k) D S (visit D S) n st =
          (case visit D S n st of Inl e \<Rightarrow> Some (Inl e) | Inr (r, st') \<Rightarrow> Some (Inr (None, st')))"
    by (rule walk_stop) (use h visit_stop_flag in blast)
qed (auto simp: isEndNode_def)

theorem isEndNode_priority_witness:
  "RawNode scalar_child_Node = Some 13 \<and> Kind (example_tree 13) = ScalarNode
   \<and> Pop (HeadComments scalar_child_Node) = (zero_Comment, [])
   \<and> isEndNode example_tree scalar_child_Node zero_Comment = Inr True
   \<and> visit example_deps example_tree scalar_child_Node initial_state
       = Inr ((True, None), \<lparr>document = example_document, logged = []\<rparr>)
   \<and> walk (Suc 0) example_deps example_tree (visit example_deps example_tree)
        scalar_child_Node initial_state
       = Some (Inr (None, \<lparr>document = example_document, logged = []\<rparr>))
   \<and> RawNode mapping_Node = Some 11 \<and> Kind (example_tree 11) = MappingNode
   \<and> \<not> GetBool (Tags zero_Comment) TagProperty
   \<and> isEndNode example_tree mapping_Node zero_Comment = Inr False
   \<and> GetBool (Tags nameless_comment) TagProperty
   \<and> isEndNode example_tree mapping_Node nameless_comment = Inr True"
proof -
  have f: "RawNode scalar_child_Node = Some 13" "Kind (example_tree 13) = ScalarNode"
    "Pop (HeadComments scalar_child_Node) = (zero_Comment, [])"
    "RawNode mapping_Node = Some 11" "Kind (example_tree 11) = MappingNode"
    "Content (example_tree 11) \<noteq> []"
    "\<not> GetBool (Tags zero_Comment) TagProperty" "GetBool (Tags nameless_comment) TagProperty"
    using example_tree_fields
    by (simp_all add: scalar_child_Node_def mapping_Node_def Pop_def zero_Comment_def nameless_comment_def
        GetBool_def tag_defs)
  have v: "visit example_deps example_tree scalar_child_Node initial_state
       = Inr ((True, None), \<lparr>document = example_document, logged = []\<rparr>)"
    using example_tree_fields
    by (simp add: visit_def visit_body_def scalar_child_Node_def Pop_def isEndNode_def example_document_def
        example_defs)
  from isEndNode_priority [of scalar_child_Node 13 example_tree zero_Comment "[]" 0 example_deps initial_state]
    isEndNode_priority [of mapping_Node 11 example_tree zero_Comment "[]" 0 example_deps initial_state]
    isEndNode_priority [of mapping_Node 11 example_tree nameless_comment "[]" 0 example_deps initial_state]
    f v
  show ?thesis by simp
qed

text \<open>
  C6. At a node whose popped comment sets \<open>docs:ignore\<close> the walk does what processing the
  remaining head comments and then the foot comments on the parent path does, and nothing
  else, whatever the node and the tree below it hold; when those comments carry no section
  and no property directive, the state is unchanged.
\<close>

theorem ignore_skips_subtree:
  "(Pop (HeadComments n) = (c, hs) \<and> GetBool (Tags c) TagIgnore \<longrightarrow>
      walk (Suc k) D S (visit D S) n st =
        (case parseCommentsOntoDocument D (Parent (Path n)) st hs of
           Inl e \<Rightarrow> Some (Inl e)
         | Inr st1 \<Rightarrow>
             (case parseCommentsOntoDocument D (Parent (Path n)) st1 (Node.FootComment n) of
                Inl e \<Rightarrow> Some (Inl e)
              | Inr st2 \<Rightarrow> Some (Inr (None, st2)))))
   \<and> (Pop (HeadComments n) = (c, hs) \<and> GetBool (Tags c) TagIgnore
       \<and> list_all (\<lambda>c. \<not> GetBool (Tags c) TagSection \<and> \<not> GetBool (Tags c) TagProperty)
            (hs @ Node.FootComment n) \<longrightarrow>
      walk (Suc k) D S (visit D S) n st = Some (Inr (None, st)))"
proof (intro conjI impI)
  assume h: "Pop (HeadComments n) = (c, hs) \<and> GetBool (Tags c) TagIgnore"
  then have v: "visit D S n st =
     (case parseCommentsOntoDocument D (Parent (Path n)) st hs of
        Inl e \<Rightarrow> Inl e
      | Inr st1 \<Rightarrow>
          (case parseCommentsOntoDocument D (Parent (Path n)) st1 (Node.FootComment n) of
             Inl e \<Rightarrow> Inl e
           | Inr st2 \<Rightarrow> Inr ((True, None), st2)))"
    using visit_ignored by blast
  show "walk (Suc k) D S (visit D S) n st =
        (case parseCommentsOntoDocument D (Parent (Path n)) st hs of
           Inl e \<Rightarrow> Some (Inl e)
         | Inr st1 \<Rightarrow>
             (case parseCommentsOntoDocument D (Parent (Path n)) st1 (Node.FootComment n) of
                Inl e \<Rightarrow> Some (Inl e)
              | Inr st2 \<Rightarrow> Some (Inr (None, st2))))"
    by (simp add: v split: sum.splits)
next
  assume h: "Pop (HeadComments n) = (c, hs) \<and> GetBool (Tags c) TagIgnore
       \<and> list_all (\<lambda>c. \<not> GetBool (Tags c) TagSection \<and> \<not> GetBool (Tags c) TagProperty)
            (hs @ Node.FootComment n)"
  then have "parseCommentsOntoDocument D (Parent (Path n)) st hs = Inr st"
    "parseCommentsOntoDocument D (Parent (Path n)) st (Node.FootComment n) = Inr st"
    by (simp_all add: parseComments_plain)
  with h show "walk (Suc k) D S (visit D S) n st = Some (Inr (None, st))"
    by (simp add: visit_ignored [of n c hs])
qed

theorem ignore_skips_subtree_witness:
  "Pop (HeadComments ignored_Node) = (\<lparr>Tags = [TagIgnore \<mapsto> []], Comment.Sections = []\<rparr>, [])
   \<and> GetBool [TagIgnore \<mapsto> []] TagIgnore
   \<and> Kind (example_tree 15) = SequenceNode \<and> Content (example_tree 15) = [16]
   \<and> walk (Suc 2) example_deps example_tree (visit example_deps example_tree) ignored_Node initial_state
       = Some (Inr (None, initial_state))"
proof -
  have f: "Pop (HeadComments ignored_Node) = (\<lparr>Tags = [TagIgnore \<mapsto> []], Comment.Sections = []\<rparr>, [])"
    "GetBool [TagIgnore \<mapsto> []] TagIgnore" "Node.FootComment ignored_Node = []"
    by (simp_all add: ignored_Node_def Pop_def GetBool_def)
  from ignore_skips_subtree [of ignored_Node "\<lparr>Tags = [TagIgnore \<mapsto> []], Comment.Sections = []\<rparr>" "[]"
      2 example_deps example_tree initial_state] f example_tree_fields
  show ?thesis by simp
qed

text \<open>
  C7, as the code has it. \<open>getTypeOf\<close> returns a non-empty \<open>docs:type\<close> value, and otherwise
  the type of the raw node's short tag by the table (\<open>unknown\<close> for any other tag and for a
  missing raw node); \<open>getDefaultValue\<close> returns a non-empty \<open>docs:default\<close> value, and
  otherwise the trimmed re-encoding of the raw node. The property of an end node takes its
  type and its default from the two. A synthetic property takes its type from \<open>getTypeOf\<close>
  and has the default \<open>undefined\<close>, whatever \<open>docs:default\<close> says.
\<close>

theorem type_and_default:
  "(GetString (Tags c) TagType \<noteq> [] \<longrightarrow> getTypeOf D S n c = GetString (Tags c) TagType)
   \<and> (GetString (Tags c) TagType = [] \<and> RawNode n = None \<longrightarrow> getTypeOf D S n c = ''unknown'')
   \<and> (GetString (Tags c) TagType = [] \<and> RawNode n = Some a \<longrightarrow>
        getTypeOf D S n c =
          (let t = ShortTag D S (S a) in
           if t = ''!!bool'' then ''bool''
           else if t = ''!!str'' then ''string''
           else if t = ''!!int'' \<or> t = ''!!float'' then ''number''
           else if t = ''!!timestamp'' then ''timestamp''
           else if t = ''!!seq'' then ''array''
           else if t = ''!!map'' then ''object''
           else ''unknown''))
   \<and> (GetString (Tags c) TagDefault \<noteq> [] \<longrightarrow>
        getDefaultValue D S n c = Inr (GetString (Tags c) TagDefault))
   \<and> (GetString (Tags c) TagDefault = [] \<and> RawNode n = Some a \<longrightarrow>
        getDefaultValue D S n c = Inr (TrimSpace D (Reencode D S (S a))))
   \<and> (\<not> GetBool (Tags c) TagIgnore \<and> isEndNode S n c = Inr True \<and> RawNode n = Some a \<longrightarrow>
        visit_body D S n c st =
          (case appendProperty (document st)
                  \<lparr>Property.Name = Path_String (Path n), Property.Description = c,
                   Property.Type = getTypeOf D S n c,
                   Default = (if GetString (Tags c) TagDefault \<noteq> [] then GetString (Tags c) TagDefault
                              else TrimSpace D (Reencode D S (S a)))\<rparr> of
             Inl e \<Rightarrow> Inl e
           | Inr doc \<Rightarrow> Inr ((True, None), st\<lparr>document := doc\<rparr>)))
   \<and> (\<not> GetBool (Tags c) TagSection \<and> GetBool (Tags c) TagProperty
        \<and> inferProperty D path c = (pn, S', c')
        \<and> parseCommentsOntoDocument D path st [c] = Inr st' \<and> document st' \<noteq> document st \<longrightarrow>
        (\<exists>name. appendProperty (document st)
                  \<lparr>Property.Name = name, Property.Description = c',
                   Property.Type = getTypeOf D S' pn c', Default = ''undefined''\<rparr>
                = Inr (document st')))"
proof (intro conjI impI)
  assume "\<not> GetBool (Tags c) TagIgnore \<and> isEndNode S n c = Inr True \<and> RawNode n = Some a"
  then show "visit_body D S n c st =
          (case appendProperty (document st)
                  \<lparr>Property.Name = Path_String (Path n), Property.Description = c,
                   Property.Type = getTypeOf D S n c,
                   Default = (if GetString (Tags c) TagDefault \<noteq> [] then GetString (Tags c) TagDefault
                              else TrimSpace D (Reencode D S (S a)))\<rparr> of
             Inl e \<Rightarrow> Inl e
           | Inr doc \<Rightarrow> Inr ((True, None), st\<lparr>document := doc\<rparr>))"
    using visit_body_end_node by blast
next
  assume h: "\<not> GetBool (Tags c) TagSection \<and> GetBool (Tags c) TagProperty
        \<and> inferProperty D path c = (pn, S', c')
        \<and> parseCommentsOntoDocument D path st [c] = Inr st' \<and> document st' \<noteq> document st"
  let ?name = "if GetString (Tags c) TagProperty \<noteq> [] then GetString (Tags c) TagProperty
                  else Path_String (Path pn)"
  from h have a: "\<not> GetBool (Tags c) TagSection" and b: "GetBool (Tags c) TagProperty"
    and i: "inferProperty D path c = (pn, S', c')"
    and d: "parseCommentsOntoDocument D path st [c] = Inr st'" by blast+
  have "parseCommentsOntoDocument D path st [c] =
     (if ?name = [] then Inr (st\<lparr>logged := logged st @ [''could not calculate undefined property name'']\<rparr>)
      else case appendProperty (document st)
                  \<lparr>Property.Name = ?name, Property.Description = c',
                   Property.Type = getTypeOf D S' pn c', Default = ''undefined''\<rparr> of
             Inl e \<Rightarrow> Inl e
           | Inr doc \<Rightarrow> Inr (st\<lparr>document := doc\<rparr>))"
    using parseComments_property [OF a b i, of st] unfolding Let_def .
  then have eq: "Inr st' =
     (if ?name = [] then Inr (st\<lparr>logged := logged st @ [''could not calculate undefined property name'']\<rparr>)
      else case appendProperty (document st)
                  \<lparr>Property.Name = ?name, Property.Description = c',
                   Property.Type = getTypeOf D S' pn c', Default = ''undefined''\<rparr> of
             Inl e \<Rightarrow> Inl e
           | Inr doc \<Rightarrow> Inr (st\<lparr>document := doc\<rparr>))"
    using d by (simp only:)
  have ne: "?name \<noteq> []"
  proof
    assume "?name = []"
    with eq have "st' = st\<lparr>logged := logged st @ [''could not calculate undefined property name'']\<rparr>"
      by simp
    with h show False by simp
  qed
  with eq have "appendProperty (document st)
                  \<lparr>Property.Name = ?name, Property.Description = c',
                   Property.Type = getTypeOf D S' pn c', Default = ''undefined''\<rparr> = Inr (document st')"
    by (auto split: sum.splits)
  then show "\<exists>name. appendProperty (document st)
                  \<lparr>Property.Name = name, Property.Description = c',
                   Property.Type = getTypeOf D S' pn c', Default = ''undefined''\<rparr>
                = Inr (document st')" by blast
qed (auto simp: getTypeOf_def getDefaultValue_def Let_def)

theorem type_and_default_witness:
  "GetString (Tags typed_comment) TagType = ''integer''
   \<and> getTypeOf example_deps example_tree scalar_child_Node typed_comment = ''integer''
   \<and> GetString (Tags typed_comment) TagDefault = ''3''
   \<and> getDefaultValue example_deps example_tree scalar_child_Node typed_comment = Inr ''3''
   \<and> GetString (Tags zero_Comment) TagType = [] \<and> GetString (Tags zero_Comment) TagDefault = []
   \<and> RawNode nil_Node = None
   \<and> getTypeOf example_deps example_tree nil_Node zero_Comment = ''unknown''
   \<and> RawNode scalar_child_Node = Some 13
   \<and> ShortTag example_deps example_tree (example_tree 13) = ''!!int''
   \<and> getTypeOf example_deps example_tree scalar_child_Node zero_Comment = ''number''
   \<and> getDefaultValue example_deps example_tree scalar_child_Node zero_Comment = Inr ''1''
   \<and> \<not> GetBool (Tags zero_Comment) TagIgnore
   \<and> isEndNode example_tree scalar_child_Node zero_Comment = Inr True
   \<and> visit_body example_deps example_tree scalar_child_Node zero_Comment initial_state
       = Inr ((True, None), \<lparr>document = example_document, logged = []\<rparr>)
   \<and> \<not> GetBool (Tags default_tag_comment) TagSection \<and> GetBool (Tags default_tag_comment) TagProperty
   \<and> property_defaults (parseCommentsOntoDocument example_deps [] initial_state [default_tag_comment])
       = [''undefined'']"
proof -
  have t: "GetString (Tags typed_comment) TagType = ''integer''"
    "GetString (Tags typed_comment) TagDefault = ''3''"
    "GetString (Tags zero_Comment) TagType = []" "GetString (Tags zero_Comment) TagDefault = []"
    "\<not> GetBool (Tags zero_Comment) TagIgnore"
    "\<not> GetBool (Tags default_tag_comment) TagSection" "GetBool (Tags default_tag_comment) TagProperty"
    by (simp_all add: typed_comment_def zero_Comment_def default_tag_comment_def GetString_def GetBool_def tag_defs)
  have r: "RawNode nil_Node = None" "RawNode scalar_child_Node = Some 13"
    "Path_String (Path scalar_child_Node) = ''a''"
    by (simp_all add: nil_Node_def scalar_child_Node_def Path_String_def)
  have s: "ShortTag example_deps example_tree (example_tree 13) = ''!!int''"
    "TrimSpace example_deps (Reencode example_deps example_tree (example_tree 13)) = ''1''"
    using example_tree_fields
    by (simp_all add: example_deps_def ShortTag_kind_def Reencode_scalar_def TrimSpace_ascii_def
        ascii_space_def is_digit_def)
  have e: "isEndNode example_tree scalar_child_Node zero_Comment = Inr True"
    using example_tree_fields by (simp add: isEndNode_def scalar_child_Node_def)
  have i: "inferProperty example_deps [] default_tag_comment =
     (\<lparr>Path = [], HeadComments = [default_tag_comment], Node.FootComment = [], RawNode = None\<rparr>,
      (\<lambda>a. zero_yaml_Node), default_tag_comment)"
    by (rule inferProperty_no_code) (simp add: default_tag_comment_def)
  have p: "parseCommentsOntoDocument example_deps [] initial_state [default_tag_comment] =
      Inr (initial_state\<lparr>document := \<lparr>Document.Sections =
        [\<lparr>Section.Name = [], Section.Description = [],
          Properties = [\<lparr>Property.Name = ''replicas'', Property.Description = default_tag_comment,
                         Property.Type = ''unknown'', Default = ''undefined''\<rparr>]\<rparr>]\<rparr>\<rparr>)"
    by (simp add: default_tag_comment_def inferProperty_def Let_def example_defs)
  have ne: "document (initial_state\<lparr>document := \<lparr>Document.Sections =
        [\<lparr>Section.Name = [], Section.Description = [],
          Properties = [\<lparr>Property.Name = ''replicas'', Property.Description = default_tag_comment,
                         Property.Type = ''unknown'', Default = ''undefined''\<rparr>]\<rparr>]\<rparr>\<rparr>)
       \<noteq> document initial_state"
    by (simp add: initial_state_def zero_Section_def)
  note a = type_and_default [of typed_comment example_deps example_tree scalar_child_Node 13 initial_state
      "[]" _ _ _ _]
  note b = type_and_default [of zero_Comment example_deps example_tree nil_Node 13 initial_state
      "[]" _ _ _ _]
  note c = type_and_default [of zero_Comment example_deps example_tree scalar_child_Node 13 initial_state
      "[]" _ _ _ _]
  note d = type_and_default [of default_tag_comment example_deps example_tree nil_Node 13 initial_state
      "[]" "\<lparr>Path = [], HeadComments = [default_tag_comment], Node.FootComment = [], RawNode = None\<rparr>"
      "\<lambda>a. zero_yaml_Node" default_tag_comment
      "initial_state\<lparr>document := \<lparr>Document.Sections =
        [\<lparr>Section.Name = [], Section.Description = [],
          Properties = [\<lparr>Property.Name = ''replicas'', Property.Description = default_tag_comment,
                         Property.Type = ''unknown'', Default = ''undefined''\<rparr>]\<rparr>]\<rparr>\<rparr>"]
  have 1: "getTypeOf example_deps example_tree scalar_child_Node typed_comment = ''integer''"
    "getDefaultValue example_deps example_tree scalar_child_Node typed_comment = Inr ''3''"
    using a t by simp_all
  have 2: "getTypeOf example_deps example_tree nil_Node zero_Comment = ''unknown''"
    using b t r by simp
  have 3: "getTypeOf example_deps example_tree scalar_child_Node zero_Comment = ''number''"
    "getDefaultValue example_deps example_tree scalar_child_Node zero_Comment = Inr ''1''"
    using c t r s by simp_all
  have 4: "visit_body example_deps example_tree scalar_child_Node zero_Comment initial_state
       = Inr ((True, None), \<lparr>document = example_document, logged = []\<rparr>)"
    using c t r s e 3
    by (simp add: appendProperty_def initial_state_def zero_Section_def example_document_def)
  have 5: "property_defaults (parseCommentsOntoDocument example_deps [] initial_state [default_tag_comment])
       = [''undefined'']"
    using d t i p ne by (simp add: property_defaults_def all_properties_def)
  from 1 2 3 4 5 t r s e show ?thesis by simp
qed

text \<open>The claim C7 fails for a synthetic property: the comment carries
  \<^verbatim>\<open>docs:default=3\<close>, and the default of the property is \<open>undefined\<close>.\<close>

theorem synthetic_default_counterexample:
  "GetString (Tags default_tag_comment) TagDefault = ''3''
   \<and> property_names (parseCommentsOntoDocument example_deps [] initial_state [default_tag_comment])
        = [''replicas'']
   \<and> property_defaults (parseCommentsOntoDocument example_deps [] initial_state [default_tag_comment])
        = [''undefined'']"
  by (simp add: default_tag_comment_def inferProperty_def Let_def example_defs)

text \<open>
  C10. When the walk descends into a sequence node, every element's child node carries the
  head and foot comments parsed from the comment text of the sequence node itself, the
  same for all elements, and nothing of the element but its address; a mapping's child
  carries the comments of its key node.
\<close>

theorem child_comments:
  "(fn root st = Inr ((False, None), st') \<and> RawNode root = Some a \<and> Kind (S a) = SequenceNode \<longrightarrow>
      walk (Suc k) D S fn root st =
        walk_each k D S fn
          (map (\<lambda>(i, node). Inr \<lparr>Path = WithIndex (Path root) i,
                  HeadComments = ParseComment D (HeadComment (S a)),
                  Node.FootComment = ParseComment D (yaml_Node.FootComment (S a)),
                  RawNode = Some node\<rparr>) (enumerate 0 (Content (S a)))) st')
   \<and> (fn root st = Inr ((False, None), st') \<and> RawNode root = Some a \<and> Kind (S a) = MappingNode
       \<and> Content (S a) = concat (map (\<lambda>(keyNode, valueNode). [keyNode, valueNode]) kvs) \<longrightarrow>
      walk (Suc k) D S fn root st =
        walk_each k D S fn
          (map (\<lambda>(keyNode, valueNode). Inr \<lparr>Path = WithProperty (Path root) (Value (S keyNode)),
                  HeadComments = ParseComment D (HeadComment (S keyNode)),
                  Node.FootComment = ParseComment D (yaml_Node.FootComment (S keyNode)),
                  RawNode = Some valueNode\<rparr>) kvs) st')"
proof (intro conjI impI)
  assume h: "fn root st = Inr ((False, None), st') \<and> RawNode root = Some a \<and> Kind (S a) = SequenceNode"
  then have "children D S root (S a) = sequence_children D root (S a) 0 (Content (S a))"
    by (simp add: children_def)
  with h show "walk (Suc k) D S fn root st =
        walk_each k D S fn
          (map (\<lambda>(i, node). Inr \<lparr>Path = WithIndex (Path root) i,
                  HeadComments = ParseComment D (HeadComment (S a)),
                  Node.FootComment = ParseComment D (yaml_Node.FootComment (S a)),
                  RawNode = Some node\<rparr>) (enumerate 0 (Content (S a)))) st'"
    by (simp add: sequence_children_map)
next
  assume h: "fn root st = Inr ((False, None), st') \<and> RawNode root = Some a \<and> Kind (S a) = MappingNode
       \<and> Content (S a) = concat (map (\<lambda>(keyNode, valueNode). [keyNode, valueNode]) kvs)"
  then have "children D S root (S a) =
      mapping_children D S root (concat (map (\<lambda>(keyNode, valueNode). [keyNode, valueNode]) kvs))"
    by (simp add: children_def)
  with h show "walk (Suc k) D S fn root st =
        walk_each k D S fn
          (map (\<lambda>(keyNode, valueNode). Inr \<lparr>Path = WithProperty (Path root) (Value (S keyNode)),
                  HeadComments = ParseComment D (HeadComment (S keyNode)),
                  Node.FootComment = ParseComment D (yaml_Node.FootComment (S keyNode)),
                  RawNode = Some valueNode\<rparr>) kvs) st'"
    by (simp add: mapping_children_map)
qed

theorem child_comments_witness:
  "visit example_deps example_tree sequence_Node initial_state = Inr ((False, None), initial_state)
   \<and> RawNode sequence_Node = Some 15 \<and> Kind (example_tree 15) = SequenceNode
   \<and> walk (Suc 1) example_deps example_tree (visit example_deps example_tree) sequence_Node initial_state
       = walk_each 1 example_deps example_tree (visit example_deps example_tree)
           [Inr \<lparr>Path = [stringPathComponent ''b'', indexPathComponent 0], HeadComments = [],
                 Node.FootComment = [], RawNode = Some 16\<rparr>] initial_state
   \<and> visit example_deps example_tree mapping_Node initial_state = Inr ((False, None), initial_state)
   \<and> RawNode mapping_Node = Some 11 \<and> Kind (example_tree 11) = MappingNode
   \<and> Content (example_tree 11) = concat (map (\<lambda>(keyNode, valueNode). [keyNode, valueNode]) [(12, 13), (14, 15)])
   \<and> walk (Suc 2) example_deps example_tree (visit example_deps example_tree) mapping_Node initial_state
       = walk_each 2 example_deps example_tree (visit example_deps example_tree)
           [Inr \<lparr>Path = [stringPathComponent ''a''], HeadComments = [],
                 Node.FootComment = [], RawNode = Some 13\<rparr>,
            Inr \<lparr>Path = [stringPathComponent ''b''],
                 HeadComments = [\<lparr>Tags = [TagIgnore \<mapsto> []], Comment.Sections = []\<rparr>],
                 Node.FootComment = [], RawNode = Some 15\<rparr>] initial_state"
proof -
  have v1: "visit example_deps example_tree sequence_Node initial_state = Inr ((False, None), initial_state)"
    using example_tree_fields
    by (intro visit_uncommented_container [where a = 15]) (simp_all add: sequence_Node_def)
  have v2: "visit example_deps example_tree mapping_Node initial_state = Inr ((False, None), initial_state)"
    using example_tree_fields
    by (simp add: visit_def visit_body_def Pop_def isEndNode_def mapping_Node_def zero_Comment_def
        GetBool_def)
  have f: "RawNode sequence_Node = Some 15" "RawNode mapping_Node = Some 11"
    "Path sequence_Node = [stringPathComponent ''b'']" "Path mapping_Node = []"
    by (simp_all add: sequence_Node_def mapping_Node_def)
  have c: "Content (example_tree 11) = concat (map (\<lambda>(keyNode, valueNode). [keyNode, valueNode]) [(12, 13), (14, 15)])"
    using example_tree_fields by simp
  have pc: "ParseComment example_deps [] = []"
    "ParseComment example_deps ''docs:ignore'' = [\<lparr>Tags = [TagIgnore \<mapsto> []], Comment.Sections = []\<rparr>]"
    by (simp_all add: example_deps_def ParseComment_spec_empty ParseComment_spec_ignore)
  from child_comments [of "visit example_deps example_tree" sequence_Node initial_state initial_state 15
      example_tree 1 example_deps "[]"]
    child_comments [of "visit example_deps example_tree" mapping_Node initial_state initial_state 11
      example_tree 2 example_deps "[(12, 13), (14, 15)]"]
    v1 v2 f c pc example_tree_fields
  show ?thesis by (simp add: enumerate_eq_zip WithIndex_def WithProperty_def)
qed


end
